theory Spec2Isabelle
  imports Main "HOL-Library.Sublist"
begin

section \<open>Data model (shared types)\<close>

text \<open>
  The tab-activity record of the shared types: \<^verbatim>\<open>Omit<Event, 'id' | 'user_id'>\<close> is the
  record \<open>event\<close>; the extension's stored form adds \<open>localId\<close>. Numbers are \<open>int\<close>,
  a \<^verbatim>\<open>Date\<close> is its millisecond value.
\<close>

datatype EventType = EvOpen | EvUpdate | EvActivate | EvClose

record event =
  window_id :: int
  tab_id :: int
  type :: EventType
  title :: string
  url :: string
  ts :: int

record pending_event = event +
  localId :: string

definition withLocalId :: "event \<Rightarrow> string \<Rightarrow> pending_event" where
  \<comment> \<open>\<^verbatim>\<open>{ ...event, localId }\<close>\<close>
  "withLocalId e lid = event.extend e \<lparr>localId = lid\<rparr>"

definition withoutLocalId :: "pending_event \<Rightarrow> event" where
  \<comment> \<open>\<^verbatim>\<open>({ localId, ...event }) => event\<close>\<close>
  "withoutLocalId p = event.truncate p"

record ExtensionConfig =
  api_base_url :: string
  enable_screenshots :: bool
  clustering_threshold :: int
  max_sessions_per_user :: int
  session_timeout_minutes :: int

datatype js_error =
    StorageError          \<comment> \<open>\<^verbatim>\<open>chrome.storage.local.set\<close> rejected\<close>
  | NetworkError          \<comment> \<open>\<^verbatim>\<open>fetch\<close> rejected\<close>
  | TypeError             \<comment> \<open>call of a member that is not a function\<close>
  | DbError               \<comment> \<open>a statement failed on the PostgreSQL client\<close>
  | ConfigError string    \<comment> \<open>\<^verbatim>\<open>new Error(...)\<close> of a constructor\<close>
  | AppError string nat   \<comment> \<open>\<^verbatim>\<open>new AppError(message, statusCode)\<close>, operational\<close>
  | AppError_nonoperational string nat
                          \<comment> \<open>\<^verbatim>\<open>new AppError(message, statusCode, false)\<close>\<close>
  | OtherError            \<comment> \<open>any other error of a library, passed on as it is\<close>

section \<open>storage-manager.ts\<close>

record TabInfo =
  ti_title :: string
  ti_url :: string
  lastSeen :: int

record StoredData =
  events :: "pending_event list"
  tabInfo :: "int \<rightharpoonup> TabInfo"
  config :: ExtensionConfig
  lastSync :: "int option"
  authToken :: "string option"

text \<open>
  \<^verbatim>\<open>chrome.storage.local\<close>, as far as the storage manager uses it: the value under the one
  key \<^verbatim>\<open>tabMemoryData\<close> (absent is \<open>None\<close>), and whether the browser API currently rejects
  reads or writes. \<open>getData\<close> and \<open>setData\<close> have a branch for each.
\<close>

record chrome_storage =
  cell :: "StoredData option"
  get_throws :: bool
  set_throws :: bool

definition MAX_LOCAL_EVENTS :: nat where
  "MAX_LOCAL_EVENTS = 1000"

definition getDefaultConfig :: ExtensionConfig where
  "getDefaultConfig =
     \<lparr>api_base_url = ''https://api.tabmemory.com'', enable_screenshots = False,
      clustering_threshold = 5, max_sessions_per_user = 100, session_timeout_minutes = 30\<rparr>"

definition getDefaultData :: StoredData where
  "getDefaultData =
     \<lparr>events = [], tabInfo = Map.empty, config = getDefaultConfig, lastSync = None,
      authToken = None\<rparr>"

definition truthy_str :: "string option \<Rightarrow> bool" where
  \<comment> \<open>JavaScript truthiness of \<^verbatim>\<open>string | null | undefined\<close>\<close>
  "truthy_str s = (case s of None \<Rightarrow> False | Some t \<Rightarrow> t \<noteq> [])"

definition getData :: "chrome_storage \<Rightarrow> StoredData" where
  "getData cs =
     (if get_throws cs then getDefaultData
      else case cell cs of
             None \<Rightarrow> getDefaultData
           | Some d \<Rightarrow> d\<lparr>authToken := (if truthy_str (authToken d) then authToken d else None)\<rparr>)"

definition setData :: "StoredData \<Rightarrow> chrome_storage \<Rightarrow> js_error + chrome_storage" where
  "setData d cs = (if set_throws cs then Inl StorageError else Inr (cs\<lparr>cell := Some d\<rparr>))"

definition slice_last :: "nat \<Rightarrow> 'a list \<Rightarrow> 'a list" where
  \<comment> \<open>\<^verbatim>\<open>xs.slice(-n)\<close> for \<open>n > 0\<close>\<close>
  "slice_last n xs = drop (length xs - n) xs"

definition storeEvent :: "string \<Rightarrow> event \<Rightarrow> chrome_storage \<Rightarrow> js_error + chrome_storage" where
  \<comment> \<open>the first argument is the value \<^verbatim>\<open>generateLocalId()\<close> returns in this call\<close>
  "storeEvent lid ev cs =
     (let data = getData cs;
          eventWithId = withLocalId ev lid;
          data1 = data\<lparr>events := events data @ [eventWithId]\<rparr>;
          data2 = (if tab_id ev \<noteq> 0 \<and> url ev \<noteq> [] \<and> title ev \<noteq> []
                   then data1\<lparr>tabInfo := (tabInfo data1)
                          (tab_id ev \<mapsto> \<lparr>ti_title = title ev, ti_url = url ev, lastSeen = ts ev\<rparr>)\<rparr>
                   else data1);
          data3 = (if length (events data2) > MAX_LOCAL_EVENTS
                   then data2\<lparr>events := slice_last MAX_LOCAL_EVENTS (events data2)\<rparr>
                   else data2)
      in setData data3 cs)"

definition storeEvent_update :: "string \<Rightarrow> event \<Rightarrow> StoredData \<Rightarrow> StoredData" where
  \<comment> \<open>what \<open>storeEvent\<close> does to the data it has read, between its two \<^verbatim>\<open>await\<close>s\<close>
  "storeEvent_update lid ev data =
     (let eventWithId = withLocalId ev lid;
          data1 = data\<lparr>events := events data @ [eventWithId]\<rparr>;
          data2 = (if tab_id ev \<noteq> 0 \<and> url ev \<noteq> [] \<and> title ev \<noteq> []
                   then data1\<lparr>tabInfo := (tabInfo data1)
                          (tab_id ev \<mapsto> \<lparr>ti_title = title ev, ti_url = url ev, lastSeen = ts ev\<rparr>)\<rparr>
                   else data1)
      in if length (events data2) > MAX_LOCAL_EVENTS
         then data2\<lparr>events := slice_last MAX_LOCAL_EVENTS (events data2)\<rparr>
         else data2)"

text \<open>
  Two \<open>storeEvent\<close> calls that overlap. The tab listeners start a handler call for every
  browser event and do not await it, and a call is suspended at
  \<^verbatim>\<open>await this.getData()\<close>; so the second call can read the stored data before the first
  has written. Both calls then hold the same data; each adds its own event and writes,
  the first call first.
\<close>

definition storeEvent_overlapping ::
  "string \<times> event \<Rightarrow> string \<times> event \<Rightarrow> chrome_storage \<Rightarrow> js_error + chrome_storage" where
  "storeEvent_overlapping a b cs =
     (let data_a = getData cs;
          data_b = getData cs
      in case setData (storeEvent_update (fst a) (snd a) data_a) cs of
           Inl err \<Rightarrow> Inl err
         | Inr cs1 \<Rightarrow> setData (storeEvent_update (fst b) (snd b) data_b) cs1)"

definition getTabInfo :: "int \<Rightarrow> chrome_storage \<Rightarrow> TabInfo option" where
  "getTabInfo tabId cs = tabInfo (getData cs) tabId"

definition removeTabInfo :: "int \<Rightarrow> chrome_storage \<Rightarrow> js_error + chrome_storage" where
  "removeTabInfo tabId cs =
     (let data = getData cs in setData (data\<lparr>tabInfo := (tabInfo data)(tabId := None)\<rparr>) cs)"

definition getPendingEvents :: "chrome_storage \<Rightarrow> pending_event list" where
  "getPendingEvents cs = events (getData cs)"

definition markEventsSynced :: "int \<Rightarrow> string list \<Rightarrow> chrome_storage \<Rightarrow> js_error + chrome_storage" where
  \<comment> \<open>the first argument is the clock value of \<^verbatim>\<open>new Date()\<close>\<close>
  "markEventsSynced now localIds cs =
     (let data = getData cs;
          data1 = data\<lparr>events := filter (\<lambda>e. localId e \<notin> set localIds) (events data)\<rparr>;
          data2 = data1\<lparr>lastSync := Some now\<rparr>
      in setData data2 cs)"

definition getAuthToken :: "chrome_storage \<Rightarrow> string option" where
  "getAuthToken cs = authToken (getData cs)"

text \<open>
  A run of \<open>storeEvent\<close> calls in which each call has returned before the next one
  starts; a rejected write ends the run.
\<close>

fun storeEvents :: "(string \<times> event) list \<Rightarrow> chrome_storage \<Rightarrow> js_error + chrome_storage" where
  "storeEvents [] cs = Inr cs"
| "storeEvents ((lid, ev) # rest) cs =
     (case storeEvent lid ev cs of Inl e \<Rightarrow> Inl e | Inr cs' \<Rightarrow> storeEvents rest cs')"

definition storage_works :: "chrome_storage \<Rightarrow> bool" where
  "storage_works cs = (\<not> get_throws cs \<and> \<not> set_throws cs)"

definition fresh_storage :: chrome_storage where
  "fresh_storage = \<lparr>cell = None, get_throws = False, set_throws = False\<rparr>"

section \<open>The platform's URL API\<close>

text \<open>
  \<open>redactSensitiveUrl\<close> uses \<^verbatim>\<open>new URL(url)\<close>, \<^verbatim>\<open>searchParams.has\<close>,
  \<^verbatim>\<open>searchParams.set\<close> and \<^verbatim>\<open>toString()\<close> of the browser. Strings are byte strings
  (UTF-8). A URL object is kept as its serialised scheme, authority and path, its query and
  its fragment; the basic URL parser itself is a parameter of the model (\<open>url_parser\<close>,
  \<open>None\<close> where \<^verbatim>\<open>new URL\<close> throws). The query-string side is written out after the
  URL Standard: the \<^verbatim>\<open>application/x-www-form-urlencoded\<close> parser and serialiser,
  percent-decoding, UTF-8 decoding with replacement, and \<^verbatim>\<open>URLSearchParams\<close>'s list.
\<close>

record URL =
  u_base :: string
  u_query :: "string option"
  u_fragment :: "string option"

type_synonym url_parser = "string \<Rightarrow> URL option"

type_synonym params = "(string \<times> string) list"

definition href :: "URL \<Rightarrow> string" where
  "href u =
     u_base u @ (case u_query u of None \<Rightarrow> [] | Some q \<Rightarrow> CHR ''?'' # q)
              @ (case u_fragment u of None \<Rightarrow> [] | Some f \<Rightarrow> CHR ''#'' # f)"

definition byte :: "char \<Rightarrow> nat" where
  "byte c = of_char c"

definition is_hex :: "char \<Rightarrow> bool" where
  "is_hex c = ((48 \<le> byte c \<and> byte c \<le> 57) \<or> (65 \<le> byte c \<and> byte c \<le> 70) \<or>
               (97 \<le> byte c \<and> byte c \<le> 102))"

definition hex_val :: "char \<Rightarrow> nat" where
  "hex_val c = (if byte c \<le> 57 then byte c - 48 else if byte c \<le> 70 then byte c - 55
                else byte c - 87)"

definition hex_digit :: "nat \<Rightarrow> char" where
  "hex_digit n = (if n < 10 then char_of (48 + n) else char_of (55 + n))"

fun percent_decode :: "string \<Rightarrow> string" where
  "percent_decode [] = []"
| "percent_decode (c # cs) =
     (if c = CHR ''%'' then
        (case cs of
           h1 # h2 # rest \<Rightarrow>
             if is_hex h1 \<and> is_hex h2
             then char_of (16 * hex_val h1 + hex_val h2) # percent_decode rest
             else c # percent_decode cs
         | _ \<Rightarrow> c # percent_decode cs)
      else c # percent_decode cs)"

text \<open>
  UTF-8 decoding with replacement, on bytes: a well-formed sequence is kept, every maximal
  ill-formed part becomes U+FFFD (\<open>EF BF BD\<close>), and the byte that broke a sequence is
  read again as a first byte.
\<close>

definition replacement :: string where
  "replacement = [char_of (239::nat), char_of (191::nat), char_of (189::nat)]"

definition utf8_ranges :: "nat \<Rightarrow> (nat \<times> nat) list option" where
  \<comment> \<open>for a first byte above \<open>0x7F\<close>: the ranges of the bytes that must follow\<close>
  "utf8_ranges n =
     (if 194 \<le> n \<and> n \<le> 223 then Some [(128, 191)]
      else if n = 224 then Some [(160, 191), (128, 191)]
      else if n = 237 then Some [(128, 159), (128, 191)]
      else if 225 \<le> n \<and> n \<le> 239 then Some [(128, 191), (128, 191)]
      else if n = 240 then Some [(144, 191), (128, 191), (128, 191)]
      else if n = 244 then Some [(128, 143), (128, 191), (128, 191)]
      else if 241 \<le> n \<and> n \<le> 243 then Some [(128, 191), (128, 191), (128, 191)]
      else None)"

fun match_conts :: "(nat \<times> nat) list \<Rightarrow> string \<Rightarrow> string \<times> string \<times> bool" where
  \<comment> \<open>the continuation bytes read, what is left, and whether the sequence is complete\<close>
  "match_conts [] bs = ([], bs, True)"
| "match_conts (r # rs) [] = ([], [], False)"
| "match_conts ((lo, hi) # rs) (c # cs) =
     (if lo \<le> byte c \<and> byte c \<le> hi
      then (case match_conts rs cs of (m, rest, ok) \<Rightarrow> (c # m, rest, ok))
      else ([], c # cs, False))"

lemma match_conts_length: "match_conts rs bs = (m, rest, ok) \<Longrightarrow> length rest \<le> length bs"
  by (induction rs bs arbitrary: m rest ok rule: match_conts.induct)
     (auto split: if_splits prod.splits)

function utf8_decode :: "string \<Rightarrow> string" where
  "utf8_decode [] = []"
| "utf8_decode (b # bs) =
     (if byte b < 128 then b # utf8_decode bs
      else case utf8_ranges (byte b) of
             None \<Rightarrow> replacement @ utf8_decode bs
           | Some rs \<Rightarrow>
               (case match_conts rs bs of
                  (m, rest, ok) \<Rightarrow>
                    if ok then b # m @ utf8_decode rest else replacement @ utf8_decode rest))"
  by pat_completeness auto
termination
  by (relation "measure length") (auto dest: match_conts_length [OF sym])

declare utf8_decode.simps [simp del]

definition urlencoded_safe :: "char \<Rightarrow> bool" where
  \<comment> \<open>outside the \<^verbatim>\<open>application/x-www-form-urlencoded\<close> percent-encode set\<close>
  "urlencoded_safe c =
     (c = CHR ''*'' \<or> c = CHR ''-'' \<or> c = CHR ''.'' \<or> c = CHR ''_'' \<or>
      (48 \<le> byte c \<and> byte c \<le> 57) \<or> (65 \<le> byte c \<and> byte c \<le> 90) \<or>
      (97 \<le> byte c \<and> byte c \<le> 122))"

definition urlencode_byte :: "char \<Rightarrow> string" where
  "urlencode_byte c =
     (if c = CHR '' '' then ''+''
      else if urlencoded_safe c then [c]
      else [CHR ''%'', hex_digit (byte c div 16), hex_digit (byte c mod 16)])"

definition urlencode :: "string \<Rightarrow> string" where
  "urlencode s = concat (map urlencode_byte s)"

fun urlencoded_serialize :: "params \<Rightarrow> string" where
  "urlencoded_serialize [] = []"
| "urlencoded_serialize [(n, v)] = urlencode n @ ''='' @ urlencode v"
| "urlencoded_serialize ((n, v) # rest) =
     urlencode n @ ''='' @ urlencode v @ ''&'' @ urlencoded_serialize rest"

fun split_on :: "char \<Rightarrow> string \<Rightarrow> string list" where
  "split_on d [] = [[]]"
| "split_on d (c # cs) =
     (if c = d then [] # split_on d cs
      else case split_on d cs of [] \<Rightarrow> [[c]] | y # ys \<Rightarrow> (c # y) # ys)"

definition urldecode :: "string \<Rightarrow> string" where
  \<comment> \<open>\<open>+\<close> to space, percent-decode, UTF-8 decode without BOM\<close>
  "urldecode s = utf8_decode (percent_decode (map (\<lambda>c. if c = CHR ''+'' then CHR '' '' else c) s))"

definition parse_pair :: "string \<Rightarrow> string \<times> string" where
  "parse_pair bytes =
     (urldecode (takeWhile (\<lambda>c. c \<noteq> CHR ''='') bytes),
      urldecode (drop 1 (dropWhile (\<lambda>c. c \<noteq> CHR ''='') bytes)))"

definition urlencoded_parse :: "string \<Rightarrow> params" where
  "urlencoded_parse input = map parse_pair (filter (\<lambda>bytes. bytes \<noteq> []) (split_on CHR ''&'' input))"

definition sp_has :: "params \<Rightarrow> string \<Rightarrow> bool" where
  \<comment> \<open>\<^verbatim>\<open>URLSearchParams.has(name)\<close>\<close>
  "sp_has l name = list_ex (\<lambda>(n, v). n = name) l"

fun set_first :: "string \<Rightarrow> string \<Rightarrow> params \<Rightarrow> params" where
  "set_first name val [] = []"
| "set_first name val ((n, v) # l) =
     (if n = name then (n, val) # filter (\<lambda>(n', v'). n' \<noteq> name) l
      else (n, v) # set_first name val l)"

definition sp_set :: "params \<Rightarrow> string \<Rightarrow> string \<Rightarrow> params" where
  \<comment> \<open>\<^verbatim>\<open>URLSearchParams.set(name, value)\<close>: the first pair of that name gets the value, the
      others of that name go; with no such pair one is appended\<close>
  "sp_set l name val = (if sp_has l name then set_first name val l else l @ [(name, val)])"

definition new_URL :: "url_parser \<Rightarrow> string \<Rightarrow> (URL \<times> params) option" where
  \<comment> \<open>the URL object with its \<^verbatim>\<open>searchParams\<close> list\<close>
  "new_URL P s =
     (case P s of
        None \<Rightarrow> None
      | Some u \<Rightarrow> Some (u, urlencoded_parse (case u_query u of None \<Rightarrow> [] | Some q \<Rightarrow> q)))"

definition searchParams_set :: "URL \<times> params \<Rightarrow> string \<Rightarrow> string \<Rightarrow> URL \<times> params" where
  \<comment> \<open>\<open>set\<close> and the update steps: the URL's query becomes the serialised list (null when
      that is empty)\<close>
  "searchParams_set uo name val =
     (let l = sp_set (snd uo) name val; q = urlencoded_serialize l
      in ((fst uo)\<lparr>u_query := (if q = [] then None else Some q)\<rparr>, l))"

section \<open>url-utils.ts\<close>

definition sensitiveParams :: "string list" where
  "sensitiveParams =
     [''token'', ''access_token'', ''auth_token'', ''api_key'', ''apikey'',
      ''key'', ''secret'', ''password'', ''pwd'', ''pass'',
      ''session'', ''sessionid'', ''session_id'', ''sid'',
      ''oauth'', ''oauth_token'', ''oauth_signature'',
      ''code'', ''auth_code'', ''authorization_code'',
      ''client_secret'', ''refresh_token'',
      ''jwt'', ''bearer'']"

definition redact_step :: "URL \<times> params \<Rightarrow> string \<Rightarrow> URL \<times> params" where
  \<comment> \<open>the body of the loop over \<open>sensitiveParams\<close>\<close>
  "redact_step uo param =
     (if sp_has (snd uo) param then searchParams_set uo param ''[REDACTED]'' else uo)"

definition redactSensitiveUrl :: "url_parser \<Rightarrow> string \<Rightarrow> string" where
  "redactSensitiveUrl P u =
     (case new_URL P u of
        None \<Rightarrow> u
      | Some urlObj \<Rightarrow> href (fst (foldl redact_step urlObj sensitiveParams)))"

subsection \<open>Notions used in the proofs about redaction\<close>

text \<open>
  The serialised form of one name-value pair; strings that UTF-8 decoding leaves as they
  are; the list \<open>redactSensitiveUrl\<close>'s loop ends with; the query a list is written back
  as.
\<close>

definition pair_string :: "string \<times> string \<Rightarrow> string" where
  "pair_string nv = urlencode (fst nv) @ CHR ''='' # urlencode (snd nv)"

definition clean_string :: "string \<Rightarrow> bool" where
  "clean_string s = (utf8_decode s = s)"

definition clean :: "params \<Rightarrow> bool" where
  "clean l = list_all (\<lambda>nv. clean_string (fst nv) \<and> clean_string (snd nv)) l"

definition redact_params :: "string list \<Rightarrow> params \<Rightarrow> params" where
  "redact_params ps l = foldl (\<lambda>l p. set_first p ''[REDACTED]'' l) l ps"

definition query_of :: "params \<Rightarrow> string option" where
  "query_of l = (if urlencoded_serialize l = [] then None else Some (urlencoded_serialize l))"

text \<open>
  What the model asks of the platform's URL parser: the serialisation of a URL record it
  produced parses back to that record, also after the record's query has been replaced
  by a serialised \<^verbatim>\<open>URLSearchParams\<close> list. (The URL Standard states this of its parser
  and serialiser.)
\<close>

definition reparses :: "url_parser \<Rightarrow> bool" where
  "reparses P \<longleftrightarrow>
     (\<forall>s u. P s = Some u \<longrightarrow> P (href u) = Some u) \<and>
     (\<forall>s u l. P s = Some u \<longrightarrow> l \<noteq> [] \<longrightarrow>
        P (href (u\<lparr>u_query := Some (urlencoded_serialize l)\<rparr>))
          = Some (u\<lparr>u_query := Some (urlencoded_serialize l)\<rparr>))"

definition ignoredPrefixes :: "string list" where
  "ignoredPrefixes =
     [''chrome://'', ''chrome-extension://'', ''edge://'', ''about:'',
      ''moz-extension://'', ''safari-extension://'', ''data:'', ''javascript:'']"

definition shouldIgnoreUrl :: "string \<Rightarrow> bool" where
  "shouldIgnoreUrl u = list_ex (\<lambda>p. prefix p u) ignoredPrefixes"

section \<open>api-client.ts\<close>

text \<open>
  The network is the environment of a sync cycle: what \<^verbatim>\<open>fetch\<close> does with the \<open>k\<close>-th
  request of the cycle and its body. \<^verbatim>\<open>fetch\<close> either rejects (no response at all) or
  gives a response, with \<^verbatim>\<open>response.ok\<close> and whether \<^verbatim>\<open>response.json()\<close> parses.
\<close>

datatype fetch_outcome = FetchRejected | FetchResponse bool bool

type_synonym network = "nat \<Rightarrow> event list \<Rightarrow> fetch_outcome"

record ApiResponse =
  success :: bool

definition handleResponse :: "bool \<Rightarrow> bool \<Rightarrow> ApiResponse" where
  "handleResponse response_ok json_parses =
     (if \<not> json_parses then \<lparr>success = False\<rparr>
      else if \<not> response_ok then \<lparr>success = False\<rparr>
      else \<lparr>success = True\<rparr>)"

definition post :: "network \<Rightarrow> nat \<Rightarrow> event list \<Rightarrow> js_error + ApiResponse" where
  "post net k body =
     (case net k body of
        FetchRejected \<Rightarrow> Inl NetworkError
      | FetchResponse response_ok json_parses \<Rightarrow> Inr (handleResponse response_ok json_parses))"

text \<open>
  The client's fields; \<open>apiAuthToken\<close> is the source's \<^verbatim>\<open>authToken\<close> and
  \<open>storageManager\<close> says whether the optional constructor argument was given (it is then
  the extension's one storage manager).
\<close>

record ApiClient =
  baseUrl :: string
  apiAuthToken :: "string option"
  eventQueue :: "pending_event list"
  syncInProgress :: bool
  storageManager :: bool

record extension =
  storage :: chrome_storage
  apiClient :: ApiClient

definition batchSize :: nat where
  "batchSize = 50"

text \<open>
  The batch loop of \<open>syncPendingEvents\<close>, with the loop index \<open>i\<close>, the ids collected so
  far and the request bodies sent so far (the log of network calls). A rejected
  \<^verbatim>\<open>fetch\<close> is the \<^verbatim>\<open>catch\<close> with its \<^verbatim>\<open>break\<close>; a response goes on to the next batch,
  its ids collected only when \<^verbatim>\<open>response.success\<close>.
\<close>

function sync_batches ::
  "network \<Rightarrow> pending_event list \<Rightarrow> nat \<Rightarrow> string list \<Rightarrow> event list list
     \<Rightarrow> string list \<times> event list list" where
  "sync_batches net allEvents i syncedLocalIds sent =
     (if i < length allEvents then
        (let batch = take batchSize (drop i allEvents);
             body = map withoutLocalId batch
         in case post net (length sent) body of
              Inl err \<Rightarrow> (syncedLocalIds, sent @ [body])
            | Inr response \<Rightarrow>
                sync_batches net allEvents (i + batchSize)
                  (if success response then syncedLocalIds @ map localId batch
                   else syncedLocalIds)
                  (sent @ [body]))
      else (syncedLocalIds, sent))"
  by pat_completeness auto
termination
  by (relation "measure (\<lambda>(net, allEvents, i, syncedLocalIds, sent). length allEvents - i)")
     (auto simp: batchSize_def)

definition pendingSequence :: "extension \<Rightarrow> pending_event list" where
  \<comment> \<open>\<^verbatim>\<open>allEvents = [...storedEvents, ...this.eventQueue]\<close>\<close>
  "pendingSequence x =
     (if storageManager (apiClient x) then getPendingEvents (storage x) else [])
       @ eventQueue (apiClient x)"

definition syncPendingEvents :: "network \<Rightarrow> int \<Rightarrow> extension \<Rightarrow> extension \<times> event list list" where
  \<comment> \<open>the new state and the request bodies sent; every error is caught inside\<close>
  "syncPendingEvents net now x =
     (let c = apiClient x in
      if syncInProgress c \<or> \<not> truthy_str (apiAuthToken c) then (x, [])
      else
        let allEvents = pendingSequence x in
        if allEvents = [] then (x\<lparr>apiClient := c\<lparr>syncInProgress := False\<rparr>\<rparr>, [])
        else
          case sync_batches net allEvents 0 [] [] of
            (syncedLocalIds, sent) \<Rightarrow>
              let c' = c\<lparr>eventQueue :=
                          filter (\<lambda>e. localId e \<notin> set syncedLocalIds) (eventQueue c),
                        syncInProgress := False\<rparr>
              in if syncedLocalIds \<noteq> [] \<and> storageManager c then
                   (case markEventsSynced now syncedLocalIds (storage x) of
                      Inl err \<Rightarrow> (x\<lparr>apiClient := c\<lparr>syncInProgress := False\<rparr>\<rparr>, sent)
                    | Inr st' \<Rightarrow> (\<lparr>storage = st', apiClient = c'\<rparr>, sent))
                 else (x\<lparr>apiClient := c'\<rparr>, sent))"

definition queueEvent :: "pending_event \<Rightarrow> ApiClient \<Rightarrow> ApiClient \<times> bool" where
  \<comment> \<open>the client with the event pushed, and whether the auto-sync is started (it runs as
      a step of its own, \<open>syncPendingEvents\<close>, not awaited by the caller)\<close>
  "queueEvent e c =
     (let c' = c\<lparr>eventQueue := eventQueue c @ [e]\<rparr> in (c', length (eventQueue c') \<ge> 10))"

section \<open>tab-event-handler.ts\<close>

record chrome_tab =
  t_id :: "int option"
  t_url :: "string option"
  t_windowId :: int
  t_title :: "string option"

text \<open>What a handler call reads from the clock and the random generator.\<close>

record capture_env =
  env_now :: int
  env_storeId :: string
  env_queueId :: string

definition tabEvent :: "url_parser \<Rightarrow> capture_env \<Rightarrow> int \<Rightarrow> string \<Rightarrow> chrome_tab \<Rightarrow> EventType \<Rightarrow> event" where
  \<comment> \<open>the event record \<open>handleTabEvent\<close> creates for a tab with id \<open>i\<close> and url \<open>u\<close>\<close>
  "tabEvent P env i u tab eventType =
     \<lparr>window_id = t_windowId tab, tab_id = i, type = eventType,
      title = (case t_title tab of None \<Rightarrow> ''Untitled''
               | Some t \<Rightarrow> if t = [] then ''Untitled'' else t),
      url = redactSensitiveUrl P u, ts = env_now env\<rparr>"

definition handleTabEvent ::
  "url_parser \<Rightarrow> capture_env \<Rightarrow> chrome_tab \<Rightarrow> EventType \<Rightarrow> extension \<Rightarrow> extension \<times> bool" where
  "handleTabEvent P env tab eventType x =
     (case (t_id tab, t_url tab) of
        (Some i, Some u) \<Rightarrow>
          if i = 0 \<or> u = [] \<or> t_windowId tab = 0 then (x, False)
          else if shouldIgnoreUrl u then (x, False)
          else
            (let ev = tabEvent P env i u tab eventType
             in case storeEvent (env_storeId env) ev (storage x) of
                  Inl err \<Rightarrow> (x, False)
                | Inr st' \<Rightarrow>
                    (case queueEvent (withLocalId ev (env_queueId env)) (apiClient x) of
                       (c', started) \<Rightarrow> (\<lparr>storage = st', apiClient = c'\<rparr>, started)))
      | _ \<Rightarrow> (x, False))"

definition closeEvent :: "capture_env \<Rightarrow> int \<Rightarrow> int \<Rightarrow> TabInfo option \<Rightarrow> event" where
  "closeEvent env tabId windowId info =
     \<lparr>window_id = windowId, tab_id = tabId, type = EvClose,
      title = (case info of None \<Rightarrow> ''Closed Tab''
               | Some ti \<Rightarrow> if ti_title ti = [] then ''Closed Tab'' else ti_title ti),
      url = (case info of None \<Rightarrow> [] | Some ti \<Rightarrow> ti_url ti),
      ts = env_now env\<rparr>"

definition handleTabClose :: "capture_env \<Rightarrow> int \<Rightarrow> int \<Rightarrow> extension \<Rightarrow> extension \<times> bool" where
  "handleTabClose env tabId windowId x =
     (let ev = closeEvent env tabId windowId (getTabInfo tabId (storage x))
      in case storeEvent (env_storeId env) ev (storage x) of
           Inl err \<Rightarrow> (x, False)
         | Inr st1 \<Rightarrow>
             (case removeTabInfo tabId st1 of
                Inl err \<Rightarrow> (x\<lparr>storage := st1\<rparr>, False)
              | Inr st2 \<Rightarrow>
                  (case queueEvent (withLocalId ev (env_queueId env)) (apiClient x) of
                     (c', started) \<Rightarrow> (\<lparr>storage = st2, apiClient = c'\<rparr>, started))))"

section \<open>Server: the database objects and the events route\<close>

text \<open>
  A row of the \<open>events\<close> table is the parameter array of the route's \<^verbatim>\<open>INSERT\<close>
  (the generated \<open>id\<close> and \<open>created_at\<close> are left out). What is persisted is the committed
  rows of PostgreSQL and the array \<^verbatim>\<open>mockDb.events\<close> of the in-memory fallback.
\<close>

datatype sql_value = VText string | VInt int | VType EventType

type_synonym row = "sql_value list"

datatype statement = Begin | Commit | Rollback | InsertEvent row

record server_db =
  pg_committed :: "row list"
  mock_events :: "row list"

text \<open>
  The PostgreSQL side is the environment: whether \<^verbatim>\<open>pool.connect()\<close> rejects, and which
  statements sent on the checked-out client fail (by their position: \<open>0\<close> is \<^verbatim>\<open>BEGIN\<close>).
  A client holds the rows written since \<^verbatim>\<open>BEGIN\<close>; \<^verbatim>\<open>COMMIT\<close> makes them committed rows,
  \<^verbatim>\<open>ROLLBACK\<close> and the release of the client drop them.
\<close>

record pg_faults =
  connect_fails :: bool
  statement_fails :: "nat \<Rightarrow> bool"

record pg_client =
  committed :: "row list"
  working :: "row list"
  sent_count :: nat

definition pg_query :: "pg_faults \<Rightarrow> statement \<Rightarrow> pg_client \<Rightarrow> js_error option \<times> pg_client" where
  "pg_query f stmt c =
     (let c1 = c\<lparr>sent_count := sent_count c + 1\<rparr> in
      if statement_fails f (sent_count c) then (Some DbError, c1)
      else case stmt of
             Begin \<Rightarrow> (None, c1\<lparr>working := []\<rparr>)
           | InsertEvent r \<Rightarrow> (None, c1\<lparr>working := working c1 @ [r]\<rparr>)
           | Commit \<Rightarrow> (None, c1\<lparr>committed := committed c1 @ working c1, working := []\<rparr>)
           | Rollback \<Rightarrow> (None, c1\<lparr>working := []\<rparr>))"

definition insertEvent :: "row \<Rightarrow> row list \<Rightarrow> js_error option \<times> row list" where
  \<comment> \<open>\<open>MockDatabase.insertEvent\<close>\<close>
  "insertEvent ps evs =
     (if length ps < 6 then (Some (ConfigError ''Missing event parameters''), evs)
      else (None, evs @ [ps]))"

definition mock_query :: "statement \<Rightarrow> row list \<Rightarrow> js_error option \<times> row list" where
  \<comment> \<open>\<open>MockDatabase.query\<close>: the insert into \<open>events\<close> is handled, any other text is an
      unhandled query with an empty result\<close>
  "mock_query stmt evs = (case stmt of InsertEvent ps \<Rightarrow> insertEvent ps evs | _ \<Rightarrow> (None, evs))"

definition supabase_client_query :: "statement \<Rightarrow> row list \<Rightarrow> js_error option \<times> row list" where
  \<comment> \<open>the object \<open>SupabaseConnection.transaction\<close> hands to the callback is the
      \<^verbatim>\<open>SupabaseClient\<close>, which has no member \<^verbatim>\<open>query\<close>\<close>
  "supabase_client_query stmt rows = (Some TypeError, rows)"

definition event_params :: "string \<Rightarrow> event \<Rightarrow> row" where
  \<comment> \<open>\<^verbatim>\<open>[userId, event.window_id, event.tab_id, event.type, event.title, event.url, event.ts]\<close>\<close>
  "event_params userId e =
     [VText userId, VInt (window_id e), VInt (tab_id e), VType (type e), VText (title e),
      VText (url e), VInt (ts e)]"

text \<open>
  The route's callback, for any client: one \<^verbatim>\<open>INSERT\<close> per event, in order; the first
  failing \<^verbatim>\<open>client.query\<close> throws out of the loop. It gives the number of inserted events.
\<close>

fun insert_events ::
  "(statement \<Rightarrow> 'c \<Rightarrow> js_error option \<times> 'c) \<Rightarrow> string \<Rightarrow> event list \<Rightarrow> nat \<Rightarrow> 'c
     \<Rightarrow> (js_error + nat) \<times> 'c" where
  "insert_events query userId [] n c = (Inr n, c)"
| "insert_events query userId (e # es) n c =
     (case query (InsertEvent (event_params userId e)) c of
        (Some err, c') \<Rightarrow> (Inl err, c')
      | (None, c') \<Rightarrow> insert_events query userId es (n + 1) c')"

definition mock_transaction :: "string \<Rightarrow> event list \<Rightarrow> server_db \<Rightarrow> (js_error + nat) \<times> server_db" where
  \<comment> \<open>\<open>MockDatabase.transaction\<close>: just the callback, on the mock itself\<close>
  "mock_transaction userId es db =
     (case insert_events mock_query userId es 0 (mock_events db) of
        (res, m) \<Rightarrow> (res, db\<lparr>mock_events := m\<rparr>))"

definition pg_transaction ::
  "pg_faults \<Rightarrow> string \<Rightarrow> event list \<Rightarrow> server_db \<Rightarrow> (js_error + nat) \<times> server_db" where
  \<comment> \<open>\<open>DatabaseConnection.transaction\<close>: \<^verbatim>\<open>BEGIN\<close>, the callback, \<^verbatim>\<open>COMMIT\<close>; on any error
      \<^verbatim>\<open>ROLLBACK\<close>, release, and the callback again on the mock database\<close>
  "pg_transaction f userId es db =
     (if connect_fails f then mock_transaction userId es db
      else
        let c0 = \<lparr>committed = pg_committed db, working = [], sent_count = 0\<rparr>;
            rolled_back = (\<lambda>c. db\<lparr>pg_committed := committed (snd (pg_query f Rollback c))\<rparr>)
        in case pg_query f Begin c0 of
             (Some err, c1) \<Rightarrow> mock_transaction userId es (rolled_back c1)
           | (None, c1) \<Rightarrow>
               (case insert_events (pg_query f) userId es 0 c1 of
                  (Inl err, c2) \<Rightarrow> mock_transaction userId es (rolled_back c2)
                | (Inr n, c2) \<Rightarrow>
                    (case pg_query f Commit c2 of
                       (Some err, c3) \<Rightarrow> mock_transaction userId es (rolled_back c3)
                     | (None, c3) \<Rightarrow> (Inr n, db\<lparr>pg_committed := committed c3\<rparr>))))"

definition supabase_transaction :: "string \<Rightarrow> event list \<Rightarrow> row list \<Rightarrow> (js_error + nat) \<times> row list" where
  \<comment> \<open>\<open>SupabaseConnection.transaction\<close>, on the remote table\<close>
  "supabase_transaction userId es rows = insert_events supabase_client_query userId es 0 rows"

definition js_length :: "string \<Rightarrow> nat" where
  \<comment> \<open>\<^verbatim>\<open>.length\<close> of the JavaScript string with this UTF-8 encoding, in UTF-16 code units:
      one for every character, and one more for a character outside the Basic
      Multilingual Plane (a four-byte sequence)\<close>
  "js_length s =
     length (filter (\<lambda>c. byte c < 128 \<or> 192 \<le> byte c) s) + length (filter (\<lambda>c. 240 \<le> byte c) s)"

definition eventSchema :: "event \<Rightarrow> bool" where
  \<comment> \<open>the Joi schema of one event: the strings required (not empty) and bounded in
      length\<close>
  "eventSchema e =
     (title e \<noteq> [] \<and> js_length (title e) \<le> 1000 \<and> url e \<noteq> [] \<and> js_length (url e) \<le> 2048)"

definition batchEventsSchema :: "event list \<Rightarrow> bool" where
  "batchEventsSchema es = (list_all eventSchema es \<and> 1 \<le> length es \<and> length es \<le> 100)"

definition post_batch ::
  "(string \<Rightarrow> event list \<Rightarrow> 'd \<Rightarrow> (js_error + nat) \<times> 'd) \<Rightarrow> string \<Rightarrow> event list \<Rightarrow> 'd
     \<Rightarrow> (js_error + nat) \<times> 'd" where
  \<comment> \<open>\<^verbatim>\<open>router.post('/batch', validateRequest(batchEventsSchema), ...)\<close> over the
      \<open>transaction\<close> of the database object; the result is \<open>synced_count\<close> or the error
      passed to the error handler (of the validation error's message only the fixed
      beginning is kept, Joi's detail after it is left out)\<close>
  "post_batch transaction userId es db =
     (if \<not> batchEventsSchema es then (Inl (AppError ''Invalid request body'' 400), db)
      else if es = [] then (Inl (AppError ''No events provided'' 400), db)
      else transaction userId es db)"

section \<open>Server: configuration read at construction and per request\<close>

type_synonym process_env = "string \<rightharpoonup> string"

record SupabaseConnection =
  isConnected :: bool

definition new_SupabaseConnection :: "process_env \<Rightarrow> js_error + SupabaseConnection" where
  \<comment> \<open>the constructor; the module creates the object when it is loaded\<close>
  "new_SupabaseConnection env =
     (if \<not> truthy_str (env ''SUPABASE_URL'') \<or> \<not> truthy_str (env ''SUPABASE_SERVICE_ROLE_KEY'')
      then Inl (ConfigError ''Missing Supabase configuration. Please set SUPABASE_URL and SUPABASE_SERVICE_ROLE_KEY environment variables.'')
      else Inr \<lparr>isConnected = True\<rparr>)"

text \<open>
  \<^verbatim>\<open>jwt.verify\<close> is the library's: it gives the decoded payload's \<open>userId\<close> (if any), or
  throws an error that is or is not an instance of \<^verbatim>\<open>JsonWebTokenError\<close> and of
  \<^verbatim>\<open>TokenExpiredError\<close>.
\<close>

datatype jwt_result = VerifyThrows bool bool | Decoded "string option"

type_synonym jwt_verify = "string \<Rightarrow> string \<Rightarrow> jwt_result"

definition authMiddleware :: "process_env \<Rightarrow> jwt_verify \<Rightarrow> string option \<Rightarrow> js_error + string" where
  \<comment> \<open>from the \<^verbatim>\<open>Authorization\<close> header to \<^verbatim>\<open>req.userId\<close>, or the error given to
      \<^verbatim>\<open>next\<close>\<close>
  "authMiddleware env verify authHeader =
     (case authHeader of
        None \<Rightarrow> Inl (AppError ''Access token required'' 401)
      | Some h \<Rightarrow>
          if h = [] \<or> \<not> prefix ''Bearer '' h then Inl (AppError ''Access token required'' 401)
          else
            (let token = drop 7 h in
             (case env ''JWT_SECRET'' of
                None \<Rightarrow> Inl (AppError_nonoperational ''JWT secret not configured'' 500)
              | Some secret \<Rightarrow>
                  if secret = [] then Inl (AppError_nonoperational ''JWT secret not configured'' 500)
                  else
                    (case verify token secret of
                       VerifyThrows is_jwt_error is_expired \<Rightarrow>
                         if is_jwt_error then Inl (AppError ''Invalid access token'' 401)
                         else if is_expired then Inl (AppError ''Access token expired'' 401)
                         else Inl OtherError
                     | Decoded None \<Rightarrow> Inl (AppError ''Invalid token payload'' 401)
                     | Decoded (Some userId) \<Rightarrow>
                         if userId = [] then Inl (AppError ''Invalid token payload'' 401)
                         else Inr userId))))"

type_synonym jwt_sign = "string \<Rightarrow> string \<Rightarrow> string"

definition generateAccessToken :: "process_env \<Rightarrow> jwt_sign \<Rightarrow> string \<Rightarrow> js_error + string" where
  \<comment> \<open>routes/auth.ts; \<^verbatim>\<open>jwt.sign\<close> is the library's\<close>
  "generateAccessToken env sign userId =
     (case env ''JWT_SECRET'' of
        None \<Rightarrow> Inl (AppError_nonoperational ''JWT secret not configured'' 500)
      | Some secret \<Rightarrow>
          if secret = [] then Inl (AppError_nonoperational ''JWT secret not configured'' 500)
          else Inr (sign userId secret))"

definition generateRefreshToken :: "process_env \<Rightarrow> jwt_sign \<Rightarrow> string \<Rightarrow> js_error + string" where
  "generateRefreshToken env sign userId =
     (case env ''REFRESH_TOKEN_SECRET'' of
        None \<Rightarrow> Inl (AppError_nonoperational ''Refresh token secret not configured'' 500)
      | Some secret \<Rightarrow>
          if secret = [] then Inl (AppError_nonoperational ''Refresh token secret not configured'' 500)
          else Inr (sign userId secret))"

definition errorHandler :: "process_env \<Rightarrow> js_error \<Rightarrow> nat \<times> string" where
  \<comment> \<open>the status and the \<^verbatim>\<open>error\<close> text of the response: the message of an error that is
      not operational is shown in development only. (The message of an error that is
      not an \<^verbatim>\<open>AppError\<close> is the library's; the model has the text of a \<open>ConfigError\<close>
      only.)\<close>
  "errorHandler env err =
     (let development = (env ''NODE_ENV'' = Some ''development'') in
      case err of
        AppError message statusCode \<Rightarrow> (statusCode, message)
      | AppError_nonoperational message statusCode \<Rightarrow>
          (statusCode, if development then message else ''Internal server error'')
      | ConfigError message \<Rightarrow>
          (500, if development then message else ''Internal server error'')
      | _ \<Rightarrow> (500, if development then [] else ''Internal server error''))"

definition required_auth_secrets :: "string list" where
  \<comment> \<open>the environment variables the auth code refuses to work without\<close>
  "required_auth_secrets = [''JWT_SECRET'', ''REFRESH_TOKEN_SECRET'']"

definition startup :: "process_env \<Rightarrow> js_error + unit" where
  \<comment> \<open>Modelled from the spec: the server's entry file (\<^verbatim>\<open>api/src/index.ts\<close>) is not among
      the sources. Section 7: a missing required secret for auth is a fatal configuration
      error, and the process fails at startup.\<close>
  "startup env =
     (if list_all (\<lambda>name. truthy_str (env name)) required_auth_secrets then Inr ()
      else Inl (ConfigError ''Missing required secret''))"

section \<open>Clustering configuration (shared types)\<close>

record ClusteringScore =
  semantic_shift_below_0_6 :: nat
  majority_shift_over_50pct :: nat
  idle_gap_over_20m :: nat
  new_window_boundary :: nat
  persistence_over_2_snapshots_or_3_tabs :: nat

definition DEFAULT_CLUSTERING_WEIGHTS :: ClusteringScore where
  "DEFAULT_CLUSTERING_WEIGHTS =
     \<lparr>semantic_shift_below_0_6 = 3, majority_shift_over_50pct = 2, idle_gap_over_20m = 1,
      new_window_boundary = 3, persistence_over_2_snapshots_or_3_tabs = 2\<rparr>"

definition PROMOTION_THRESHOLD :: nat where
  "PROMOTION_THRESHOLD = 5"

record signals =
  semantic_shift :: bool
  majority_shift :: bool
  idle_gap :: bool
  new_window :: bool
  persistence :: bool

definition total_score :: "ClusteringScore \<Rightarrow> signals \<Rightarrow> nat" where
  \<comment> \<open>Modelled from the spec: the scorer is not implemented in the repository (only its
      weight table and threshold are); section 4.5 sums the weights of the true signals.\<close>
  "total_score w s =
     (if semantic_shift s then semantic_shift_below_0_6 w else 0) +
     (if majority_shift s then majority_shift_over_50pct w else 0) +
     (if idle_gap s then idle_gap_over_20m w else 0) +
     (if new_window s then new_window_boundary w else 0) +
     (if persistence s then persistence_over_2_snapshots_or_3_tabs w else 0)"

definition starts_new_session :: "signals \<Rightarrow> bool" where
  \<comment> \<open>Modelled from the spec: section 4.5's decision rule, the total against the
      promotion threshold.\<close>
  "starts_new_session s = (total_score DEFAULT_CLUSTERING_WEIGHTS s \<ge> PROMOTION_THRESHOLD)"

section \<open>Sample data\<close>

definition ev1 :: event where
  "ev1 = \<lparr>window_id = 1, tab_id = 7, type = EvOpen, title = ''Docs'',
          url = ''https://example.org/docs'', ts = 1000\<rparr>"

definition ev2 :: event where
  "ev2 = \<lparr>window_id = 1, tab_id = 8, type = EvActivate, title = ''Mail'',
          url = ''https://example.org/mail'', ts = 2000\<rparr>"

text \<open>
  A small URL parser to run the model on concrete URLs: the base up to the first \<open>?\<close> or
  \<open>#\<close> (which must hold a scheme's colon), the query up to \<open>#\<close>, the fragment.
\<close>

definition split_url :: url_parser where
  "split_url s =
     (let b = takeWhile (\<lambda>c. c \<noteq> CHR ''?'' \<and> c \<noteq> CHR ''#'') s;
          r = dropWhile (\<lambda>c. c \<noteq> CHR ''?'' \<and> c \<noteq> CHR ''#'') s
      in if CHR '':'' \<notin> set b then None
         else Some \<lparr>u_base = b,
                    u_query = (case r of [] \<Rightarrow> None
                               | c # q \<Rightarrow> if c = CHR ''?''
                                          then Some (takeWhile (\<lambda>c. c \<noteq> CHR ''#'') q) else None),
                    u_fragment = (case dropWhile (\<lambda>c. c \<noteq> CHR ''#'') r of [] \<Rightarrow> None
                                  | c # f \<Rightarrow> Some f)\<rparr>)"

definition the_split :: "string \<Rightarrow> URL" where
  \<comment> \<open>the record \<open>split_url\<close> gives for a string with a scheme\<close>
  "the_split s =
     \<lparr>u_base = takeWhile (\<lambda>c. c \<noteq> CHR ''?'' \<and> c \<noteq> CHR ''#'') s,
      u_query = (case dropWhile (\<lambda>c. c \<noteq> CHR ''?'' \<and> c \<noteq> CHR ''#'') s of [] \<Rightarrow> None
                 | c # q \<Rightarrow> if c = CHR ''?''
                            then Some (takeWhile (\<lambda>c. c \<noteq> CHR ''#'') q) else None),
      u_fragment = (case dropWhile (\<lambda>c. c \<noteq> CHR ''#'')
                           (dropWhile (\<lambda>c. c \<noteq> CHR ''?'' \<and> c \<noteq> CHR ''#'') s) of
                      [] \<Rightarrow> None | c # f \<Rightarrow> Some f)\<rparr>"

definition splits_back :: "URL \<Rightarrow> bool" where
  \<comment> \<open>the records whose serialisation \<open>split_url\<close> reads back as they are\<close>
  "splits_back u \<longleftrightarrow>
     CHR '':'' \<in> set (u_base u) \<and>
     (\<forall>c\<in>set (u_base u). c \<noteq> CHR ''?'' \<and> c \<noteq> CHR ''#'') \<and>
     (case u_query u of None \<Rightarrow> True | Some q \<Rightarrow> CHR ''#'' \<notin> set q)"

definition numbered :: "nat \<Rightarrow> pending_event" where
  \<comment> \<open>the \<open>n\<close>-th of a run of pending events, with a local id of its own\<close>
  "numbered n =
     \<lparr>window_id = 1, tab_id = int n + 1, type = EvUpdate, title = ''Page'',
      url = ''https://example.org/page'', ts = int n, localId = replicate (Suc n) (CHR ''i'')\<rparr>"

definition numbered_event :: "nat \<Rightarrow> event" where
  "numbered_event n =
     \<lparr>window_id = 1, tab_id = int n + 1, type = EvUpdate, title = ''Page'',
      url = ''https://example.org/page'', ts = int n\<rparr>"

definition append_run :: "nat \<Rightarrow> (string \<times> event) list" where
  \<comment> \<open>\<open>k\<close> appends: the generated local id and the event of each\<close>
  "append_run k = map (\<lambda>n. (replicate (Suc n) (CHR ''i''), numbered_event n)) [0..<k]"

definition pending120 :: "pending_event list" where
  "pending120 = map numbered [0..<120]"

definition second_call_error_response :: network where
  \<comment> \<open>the server answers the second request of the cycle with an HTTP error status\<close>
  "second_call_error_response k body = (if k = 1 then FetchResponse False True else FetchResponse True True)"

definition second_call_rejected :: network where
  \<comment> \<open>the second \<^verbatim>\<open>fetch\<close> of the cycle rejects\<close>
  "second_call_rejected k body = (if k = 1 then FetchRejected else FetchResponse True True)"

definition all_accepted :: network where
  "all_accepted k body = FetchResponse True True"

definition signed_out_client :: ApiClient where
  "signed_out_client =
     \<lparr>baseUrl = [], apiAuthToken = None, eventQueue = [], syncInProgress = False,
      storageManager = False\<rparr>"

definition background :: extension where
  \<comment> \<open>the state the background script constructs: \<^verbatim>\<open>new StorageManager()\<close>,
      \<^verbatim>\<open>new ApiClient()\<close> (without storage manager)\<close>
  "background = \<lparr>storage = fresh_storage, apiClient = signed_out_client\<rparr>"

definition env1 :: capture_env where
  "env1 = \<lparr>env_now = 1000, env_storeId = ''local_1000_a'', env_queueId = ''local_1000_b''\<rparr>"

definition env2 :: capture_env where
  "env2 = \<lparr>env_now = 2000, env_storeId = ''local_2000_c'', env_queueId = ''local_2000_d''\<rparr>"

definition docs_tab :: chrome_tab where
  "docs_tab = \<lparr>t_id = Some 7, t_url = Some ''https://example.org/docs'', t_windowId = 1,
               t_title = Some ''Docs''\<rparr>"

definition newtab_tab :: chrome_tab where
  "newtab_tab = \<lparr>t_id = Some 9, t_url = Some ''chrome://newtab/'', t_windowId = 1,
                 t_title = Some ''New Tab''\<rparr>"

definition backed :: extension where
  "backed = \<lparr>storage = fresh_storage,
             apiClient = \<lparr>baseUrl = ''https://api.tabmemory.com'', apiAuthToken = Some ''jwt'',
                          eventQueue = [], syncInProgress = False, storageManager = True\<rparr>\<rparr>"

definition docs_event :: event where
  "docs_event = \<lparr>window_id = 1, tab_id = 7, type = EvOpen, title = ''Docs'',
                 url = ''https://example.org/docs'', ts = 1000\<rparr>"

definition closed_newtab_event :: event where
  "closed_newtab_event = \<lparr>window_id = 1, tab_id = 9, type = EvClose, title = ''Closed Tab'',
                 url = [], ts = 2000\<rparr>"

definition waiting :: extension where
  "waiting = \<lparr>storage = fresh_storage\<lparr>cell := Some (getDefaultData\<lparr>events := take 2 pending120\<rparr>)\<rparr>,
              apiClient = signed_out_client\<lparr>eventQueue := take 3 (drop 2 pending120), storageManager := True\<rparr>\<rparr>"

definition env_with_secrets :: process_env where
  "env_with_secrets =
     [''JWT_SECRET'' \<mapsto> ''jwt-secret'', ''REFRESH_TOKEN_SECRET'' \<mapsto> ''refresh-secret'',
      ''NODE_ENV'' \<mapsto> ''production'']"

definition env_without_jwt_secret :: process_env where
  "env_without_jwt_secret =
     [''REFRESH_TOKEN_SECRET'' \<mapsto> ''refresh-secret'', ''NODE_ENV'' \<mapsto> ''production'']"

definition test_sign :: jwt_sign where
  "test_sign userId secret = userId @ ''.'' @ secret"

definition accepting_verify :: jwt_verify where
  "accepting_verify token secret = Decoded (Some ''user-1'')"

section \<open>Local event store: acknowledgement and bounded append\<close>

lemma getPendingEvents_setData:
  "\<not> get_throws cs \<Longrightarrow> setData d cs = Inr cs' \<Longrightarrow> getPendingEvents cs' = events d"
  by (auto simp: setData_def getPendingEvents_def getData_def split: if_splits)

lemma storage_works_setData:
  "storage_works cs \<Longrightarrow> \<exists>cs'. setData d cs = Inr cs' \<and> storage_works cs' \<and> cell cs' = Some d"
  by (simp add: setData_def storage_works_def)

lemma slice_last_append:
  "slice_last n (slice_last n ys @ zs) = slice_last n (ys @ zs)"
proof (cases "length ys \<le> n")
  case True
  then show ?thesis by (simp add: slice_last_def)
next
  case False
  then show ?thesis by (simp add: slice_last_def add.commute)
qed

lemma slice_last_short: "length xs \<le> n \<Longrightarrow> slice_last n xs = xs"
  by (simp add: slice_last_def)

lemma storeEvent_pending:
  assumes "storage_works cs"
  shows "\<exists>cs'. storeEvent lid ev cs = Inr cs' \<and> storage_works cs' \<and>
           getPendingEvents cs' =
             slice_last MAX_LOCAL_EVENTS (getPendingEvents cs @ [withLocalId ev lid])"
  using assms
  by (auto simp: storeEvent_def Let_def setData_def storage_works_def getPendingEvents_def
      getData_def slice_last_def split: option.splits)

lemma storeEvents_pending:
  assumes "storage_works cs" and "xs \<noteq> []"
  shows "\<exists>cs'. storeEvents xs cs = Inr cs' \<and> storage_works cs' \<and>
           getPendingEvents cs' =
             slice_last MAX_LOCAL_EVENTS
               (getPendingEvents cs @ map (\<lambda>(lid, ev). withLocalId ev lid) xs)"
  using assms
proof (induction xs arbitrary: cs)
  case Nil
  then show ?case by simp
next
  case (Cons x xs)
  obtain lid ev where x: "x = (lid, ev)" by (cases x)
  from storeEvent_pending [OF Cons.prems(1), of lid ev]
  obtain cs1 where s1: "storeEvent lid ev cs = Inr cs1" and w1: "storage_works cs1"
    and p1: "getPendingEvents cs1 =
               slice_last MAX_LOCAL_EVENTS (getPendingEvents cs @ [withLocalId ev lid])"
    by blast
  show ?case
  proof (cases "xs = []")
    case True
    with s1 w1 p1 x show ?thesis by simp
  next
    case False
    from Cons.IH [OF w1 False]
    obtain cs2 where s2: "storeEvents xs cs1 = Inr cs2" and w2: "storage_works cs2"
      and p2: "getPendingEvents cs2 =
                 slice_last MAX_LOCAL_EVENTS
                   (getPendingEvents cs1 @ map (\<lambda>(lid, ev). withLocalId ev lid) xs)"
      by blast
    from p2 p1 have "getPendingEvents cs2 =
        slice_last MAX_LOCAL_EVENTS
          (getPendingEvents cs @ map (\<lambda>(lid, ev). withLocalId ev lid) (x # xs))"
      by (simp add: slice_last_append x)
    with s1 s2 w2 x show ?thesis by simp
  qed
qed

lemma storeEvent_read_update_write:
  "storeEvent lid ev cs = setData (storeEvent_update lid ev (getData cs)) cs"
  by (simp add: storeEvent_def storeEvent_update_def Let_def)

lemma withLocalId_fields:
  "withLocalId ev lid =
     \<lparr>window_id = window_id ev, tab_id = tab_id ev, type = type ev,
      title = title ev, url = url ev, ts = ts ev, localId = lid\<rparr>"
  by (simp add: withLocalId_def event.extend_def)

text \<open>
  C4, as stated, fails for appends that overlap. \<open>storeEvent\<close> reads the stored data,
  changes its copy and writes it back, with nothing to keep a second call from reading in
  between, and the listeners do not await a handler call before the next browser event
  starts another. When two appends to the empty store overlap, the write of the second
  replaces that of the first: \<open>pending()\<close> holds the second event alone.
\<close>

theorem overlapping_appends_lose_an_event_counterexample:
  "(case storeEvent_overlapping (''local_1000_a'', ev1) (''local_2000_b'', ev2) fresh_storage of
      Inl err \<Rightarrow> None
    | Inr cs' \<Rightarrow> Some (getPendingEvents cs'))
   = Some [\<lparr>window_id = 1, tab_id = 8, type = EvActivate, title = ''Mail'',
            url = ''https://example.org/mail'', ts = 2000, localId = ''local_2000_b''\<rparr>]"
  by (simp add: storeEvent_overlapping_def storeEvent_update_def Let_def getData_def setData_def
      fresh_storage_def getDefaultData_def getPendingEvents_def withLocalId_fields ev1_def ev2_def
      MAX_LOCAL_EVENTS_def truthy_str_def)

text \<open>
  C4, amended. For every run of appends in which each \<open>storeEvent\<close> call has returned
  before the next one starts, on a working store that was empty, \<open>pending()\<close> returns the
  appended events, each with every field as it was appended and with the local id
  generated for it, in insertion order, cut to the most recent \<open>1000\<close>: for \<open>N \<le> 1000\<close>
  the subtraction is \<open>0\<close> and nothing is dropped, for \<open>N > 1000\<close> exactly the \<open>N - 1000\<close>
  oldest are gone.
\<close>

theorem awaited_appends_pending_last_1000:
  assumes "storage_works cs" and "getPendingEvents cs = []"
  shows "\<exists>cs'. storeEvents xs cs = Inr cs' \<and>
           getPendingEvents cs' =
             drop (length xs - 1000)
               (map (\<lambda>(lid, ev). \<lparr>window_id = window_id ev, tab_id = tab_id ev, type = type ev,
                                   title = title ev, url = url ev, ts = ts ev, localId = lid\<rparr>)
                  xs)"
proof (cases "xs = []")
  case True
  with assms show ?thesis by simp
next
  case False
  have "map (\<lambda>(lid, ev). withLocalId ev lid) xs =
        map (\<lambda>(lid, ev). \<lparr>window_id = window_id ev, tab_id = tab_id ev, type = type ev,
                            title = title ev, url = url ev, ts = ts ev, localId = lid\<rparr>) xs"
    by (simp add: withLocalId_fields)
  with storeEvents_pending [OF assms(1) False] assms(2) show ?thesis
    by (auto simp: slice_last_def MAX_LOCAL_EVENTS_def)
qed

theorem awaited_appends_pending_last_1000_witness:
  "storage_works fresh_storage \<and> getPendingEvents fresh_storage = [] \<and>
   length (append_run 1001) = 1001 \<and>
   (\<exists>cs'. storeEvents (append_run 1001) fresh_storage = Inr cs' \<and>
      getPendingEvents cs' =
        map (\<lambda>n. \<lparr>window_id = 1, tab_id = int n + 1, type = EvUpdate, title = ''Page'',
                   url = ''https://example.org/page'', ts = int n,
                   localId = replicate (Suc n) (CHR ''i'')\<rparr>)
          [1..<1001])"
proof -
  have w: "storage_works fresh_storage"
    by (simp add: storage_works_def fresh_storage_def)
  have e: "getPendingEvents fresh_storage = []"
    by (simp add: getPendingEvents_def getData_def fresh_storage_def getDefaultData_def)
  have l: "length (append_run 1001) = 1001"
    by (simp add: append_run_def)
  have d: "drop (length (append_run 1001) - 1000)
             (map (\<lambda>(lid, ev). \<lparr>window_id = window_id ev, tab_id = tab_id ev, type = type ev,
                                 title = title ev, url = url ev, ts = ts ev, localId = lid\<rparr>)
                (append_run 1001))
           = map (\<lambda>n. \<lparr>window_id = 1, tab_id = int n + 1, type = EvUpdate, title = ''Page'',
                   url = ''https://example.org/page'', ts = int n,
                   localId = replicate (Suc n) (CHR ''i'')\<rparr>)
              [1..<1001]"
    unfolding l by (simp add: append_run_def drop_map numbered_event_def comp_def)
  from awaited_appends_pending_last_1000 [OF w e, of "append_run 1001"]
  show ?thesis using w e l unfolding d by simp
qed

text \<open>
  C10. \<open>markEventsSynced\<close> on a working store succeeds for every id list and leaves
  exactly the pending events whose local id is not in the list, in their order; ids that
  match no event remove nothing.
\<close>

theorem markEventsSynced_removes_exactly:
  assumes "storage_works cs"
  shows "\<exists>cs'. markEventsSynced now localIds cs = Inr cs' \<and>
           getPendingEvents cs' =
             filter (\<lambda>e. localId e \<notin> set localIds) (getPendingEvents cs)"
  using assms
  by (auto simp: markEventsSynced_def Let_def setData_def storage_works_def
      getPendingEvents_def getData_def split: option.splits)


theorem markEventsSynced_removes_exactly_witness:
  "storage_works (storage waiting) \<and>
   (\<exists>cs'. markEventsSynced 9000 [localId (numbered 1), ''local_absent''] (storage waiting) = Inr cs' \<and>
      getPendingEvents cs' = [numbered 0])"
proof -
  have w: "storage_works (storage waiting)"
    by (simp add: waiting_def storage_works_def fresh_storage_def)
  have p: "getPendingEvents (storage waiting) = [numbered 0, numbered 1]"
    by code_simp
  have n: "localId (numbered 0) \<noteq> localId (numbered 1)" "localId (numbered 0) \<noteq> ''local_absent''"
    by (simp_all add: numbered_def)
  from markEventsSynced_removes_exactly [OF w, of 9000 "[localId (numbered 1), ''local_absent'']"]
  show ?thesis using w n by (simp add: p)
qed

section \<open>Sync engine\<close>

lemma length_pending120: "length pending120 = 120"
  by (simp add: pending120_def)

text \<open>
  C1. The batches are cut and sent in order, and a rejected \<^verbatim>\<open>fetch\<close> ends the loop
  (\<open>rejected_fetch_stops_sync\<close> below). But a batch the server answers with an error
  status is not a thrown error: \<open>handleResponse\<close> turns it into \<open>success = False\<close>, and the
  loop goes on. With 120 pending events and an error response to the second request, the
  third request is sent and the ids of events 1 to 50 and 101 to 120 are collected for
  acknowledgement, leaving a gap.
\<close>

theorem sync_skips_ahead_after_error_response:
  "sync_batches second_call_error_response pending120 0 [] [] =
     (map localId (take 50 pending120) @ map localId (drop 100 pending120),
      [map withoutLocalId (take 50 pending120),
       map withoutLocalId (take 50 (drop 50 pending120)),
       map withoutLocalId (drop 100 pending120)])"
  by (simp add: length_pending120 batchSize_def post_def second_call_error_response_def
      handleResponse_def Let_def)

lemma rejected_fetch_stops_sync:
  "sync_batches second_call_rejected pending120 0 [] [] =
     (map localId (take 50 pending120),
      [map withoutLocalId (take 50 pending120),
       map withoutLocalId (take 50 (drop 50 pending120))])"
  by (simp add: length_pending120 batchSize_def post_def second_call_rejected_def
      handleResponse_def Let_def)

text \<open>
  C8. Without a credential (\<^verbatim>\<open>authToken\<close> null or empty) \<open>syncPendingEvents\<close> returns
  at once: the state (store, queue, flags) is the one it was given and no request is sent,
  whatever the network would answer.
\<close>

theorem sync_without_credential_is_noop:
  "\<not> truthy_str (apiAuthToken (apiClient x)) \<Longrightarrow> syncPendingEvents net now x = (x, [])"
  by (simp add: syncPendingEvents_def)

theorem sync_without_credential_is_noop_witness:
  "\<not> truthy_str (apiAuthToken (apiClient waiting)) \<and> pendingSequence waiting = take 5 pending120 \<and>
   syncPendingEvents all_accepted 5000 waiting = (waiting, [])"
proof -
  have a: "\<not> truthy_str (apiAuthToken (apiClient waiting))"
    by (simp add: waiting_def signed_out_client_def truthy_str_def)
  have b: "pendingSequence waiting = take 5 pending120"
    by code_simp
  from sync_without_credential_is_noop [OF a, of all_accepted 5000] a b show ?thesis by simp
qed

section \<open>Capture of tab events\<close>

text \<open>
  C3, as stated, fails: one captured tab event is written to the persisted store and to
  the in-memory queue, under two local ids. A client constructed with the storage manager
  reads both copies as its pending sequence and sends the event twice in one request.
\<close>

theorem captured_event_twice_counterexample:
  "eventQueue (apiClient (fst (handleTabEvent split_url env1 docs_tab EvOpen background)))
     = [withLocalId docs_event ''local_1000_b''] \<and>
   getPendingEvents (storage (fst (handleTabEvent split_url env1 docs_tab EvOpen background)))
     = [withLocalId docs_event ''local_1000_a''] \<and>
   pendingSequence (fst (handleTabEvent split_url env1 docs_tab EvOpen backed))
     = [withLocalId docs_event ''local_1000_a'', withLocalId docs_event ''local_1000_b''] \<and>
   snd (syncPendingEvents all_accepted 3000 (fst (handleTabEvent split_url env1 docs_tab EvOpen backed)))
     = [[docs_event, docs_event]]"
  by code_simp

text \<open>
  C3, amended. Every accepted tab event is appended once to the persisted store and once to
  the in-memory queue, with the same payload and two separately generated local ids. When
  the API client has no storage manager (as the background script constructs it), the
  pending sequence read at the start of a sync is the queue alone, and each accepted tab
  event adds exactly one entry to it.
\<close>

theorem capture_goes_to_store_and_queue:
  assumes "t_id tab = Some i" and "t_url tab = Some u" and "i \<noteq> 0" and "u \<noteq> []"
    and "t_windowId tab \<noteq> 0" and "\<not> shouldIgnoreUrl u" and "storage_works (storage x)"
  shows "\<exists>x' started. handleTabEvent P env tab eventType x = (x', started) \<and>
           getPendingEvents (storage x') =
             slice_last MAX_LOCAL_EVENTS
               (getPendingEvents (storage x) @
                  [withLocalId (tabEvent P env i u tab eventType) (env_storeId env)]) \<and>
           eventQueue (apiClient x') =
             eventQueue (apiClient x) @
               [withLocalId (tabEvent P env i u tab eventType) (env_queueId env)] \<and>
           (\<not> storageManager (apiClient x) \<longrightarrow>
              pendingSequence x' =
                pendingSequence x @ [withLocalId (tabEvent P env i u tab eventType) (env_queueId env)])"
proof -
  from storeEvent_pending [OF assms(7), of "env_storeId env" "tabEvent P env i u tab eventType"]
  obtain st' where s: "storeEvent (env_storeId env) (tabEvent P env i u tab eventType) (storage x) = Inr st'"
    and p: "getPendingEvents st' =
             slice_last MAX_LOCAL_EVENTS
               (getPendingEvents (storage x) @
                  [withLocalId (tabEvent P env i u tab eventType) (env_storeId env)])"
    by blast
  from assms s p show ?thesis
    by (simp add: handleTabEvent_def Let_def queueEvent_def pendingSequence_def)
qed

theorem capture_goes_to_store_and_queue_witness:
  "t_id docs_tab = Some 7 \<and> t_url docs_tab = Some ''https://example.org/docs'' \<and>
   t_windowId docs_tab \<noteq> 0 \<and> \<not> shouldIgnoreUrl ''https://example.org/docs'' \<and>
   storage_works (storage background) \<and> \<not> storageManager (apiClient background) \<and>
   (\<exists>x' started. handleTabEvent split_url env1 docs_tab EvOpen background = (x', started) \<and>
      getPendingEvents (storage x') = [withLocalId docs_event ''local_1000_a''] \<and>
      eventQueue (apiClient x') = [withLocalId docs_event ''local_1000_b''] \<and>
      pendingSequence x' = [withLocalId docs_event ''local_1000_b''])"
proof -
  have a: "t_id docs_tab = Some 7" "t_url docs_tab = Some ''https://example.org/docs''"
      "(7::int) \<noteq> 0" "''https://example.org/docs'' \<noteq> []" "t_windowId docs_tab \<noteq> 0"
    by (simp_all add: docs_tab_def)
  have b: "\<not> shouldIgnoreUrl ''https://example.org/docs''"
    by (simp add: shouldIgnoreUrl_def ignoredPrefixes_def)
  have c: "storage_works (storage background)" "\<not> storageManager (apiClient background)"
    by (simp_all add: background_def storage_works_def fresh_storage_def signed_out_client_def)
  have d: "tabEvent split_url env1 7 ''https://example.org/docs'' docs_tab EvOpen = docs_event"
    by code_simp
  have e: "getPendingEvents (storage background) = []" "pendingSequence background = []"
      "eventQueue (apiClient background) = []"
    by (simp_all add: pendingSequence_def background_def getPendingEvents_def getData_def
        fresh_storage_def getDefaultData_def signed_out_client_def)
  have f: "env_storeId env1 = ''local_1000_a''" "env_queueId env1 = ''local_1000_b''"
    by (simp_all add: env1_def)
  from capture_goes_to_store_and_queue [OF a b c(1), of split_url env1 EvOpen]
  show ?thesis using a b c
    by (simp add: d e f slice_last_def MAX_LOCAL_EVENTS_def)
qed

text \<open>
  An open, update or activate of a tab whose url starts with an ignored prefix leaves the
  store and the queue as they are.
\<close>

lemma handleTabEvent_ignored:
  "t_url tab = Some u \<Longrightarrow> shouldIgnoreUrl u \<Longrightarrow> handleTabEvent P env tab eventType x = (x, False)"
  by (simp add: handleTabEvent_def split: option.splits)

lemma ignored_newtab: "shouldIgnoreUrl ''chrome://newtab/''"
  by (simp add: shouldIgnoreUrl_def ignoredPrefixes_def)

text \<open>
  C6. The claim covers the close of a tab too, and there it fails: \<open>handleTabClose\<close> never
  asks \<open>shouldIgnoreUrl\<close>. A tab on \<^verbatim>\<open>chrome://newtab/\<close> is opened (no event, as claimed)
  and closed: the close creates an event with the title \<^verbatim>\<open>Closed Tab\<close> and an empty url,
  which is in \<open>pending()\<close> and in the sync queue.
\<close>

theorem close_of_ignored_tab_creates_event:
  "handleTabEvent split_url env1 newtab_tab EvOpen background = (background, False) \<and>
   getPendingEvents (storage (fst (handleTabClose env2 9 1 background)))
     = [withLocalId closed_newtab_event ''local_2000_c''] \<and>
   eventQueue (apiClient (fst (handleTabClose env2 9 1 background)))
     = [withLocalId closed_newtab_event ''local_2000_d'']"
  by (simp add: handleTabEvent_def newtab_tab_def ignored_newtab handleTabClose_def background_def
      getTabInfo_def getData_def fresh_storage_def getDefaultData_def closeEvent_def env2_def
      storeEvent_def Let_def setData_def removeTabInfo_def queueEvent_def signed_out_client_def
      getPendingEvents_def truthy_str_def closed_newtab_event_def withLocalId_def MAX_LOCAL_EVENTS_def)

section \<open>Ingestion endpoint\<close>

lemma insert_events_mock:
  "insert_events mock_query userId es n evs =
     (Inr (n + length es), evs @ map (event_params userId) es)"
  by (induction es arbitrary: n evs)
     (simp_all add: mock_query_def insertEvent_def event_params_def)

lemma pg_query_committed:
  "stmt \<noteq> Commit \<Longrightarrow> committed (snd (pg_query f stmt c)) = committed c"
  by (cases stmt) (simp_all add: pg_query_def Let_def)

lemma insert_events_pg:
  "(\<exists>c'. insert_events (pg_query f) userId es n c = (Inr (n + length es), c') \<and>
         committed c' = committed c \<and> working c' = working c @ map (event_params userId) es) \<or>
   (\<exists>c'. insert_events (pg_query f) userId es n c = (Inl DbError, c') \<and> committed c' = committed c)"
proof (induction es arbitrary: n c)
  case Nil
  then show ?case by simp
next
  case (Cons e es)
  show ?case
  proof (cases "statement_fails f (sent_count c)")
    case True
    then show ?thesis by (simp add: pg_query_def Let_def)
  next
    case False
    let ?c1 = "c\<lparr>sent_count := sent_count c + 1, working := working c @ [event_params userId e]\<rparr>"
    from False have q: "pg_query f (InsertEvent (event_params userId e)) c = (None, ?c1)"
      by (simp add: pg_query_def Let_def)
    from Cons.IH [of "n + 1" ?c1] show ?thesis
      by (auto simp: q)
  qed
qed

lemma mock_transaction_all:
  "mock_transaction userId es db =
     (Inr (length es), db\<lparr>mock_events := mock_events db @ map (event_params userId) es\<rparr>)"
  by (simp add: mock_transaction_def insert_events_mock)

lemma pg_transaction_outcomes:
  "pg_transaction f userId es db =
     (Inr (length es), db\<lparr>pg_committed := pg_committed db @ map (event_params userId) es\<rparr>) \<or>
   pg_transaction f userId es db =
     (Inr (length es), db\<lparr>mock_events := mock_events db @ map (event_params userId) es\<rparr>)"
proof (cases "connect_fails f")
  case True
  then show ?thesis by (simp add: pg_transaction_def mock_transaction_all)
next
  case False
  let ?c0 = "\<lparr>committed = pg_committed db, working = [], sent_count = 0\<rparr>"
  have rb: "\<And>c. committed c = pg_committed db \<Longrightarrow>
              db\<lparr>pg_committed := committed (snd (pg_query f Rollback c))\<rparr> = db"
    by (simp add: pg_query_committed)
  show ?thesis
  proof (cases "statement_fails f 0")
    case True
    with False show ?thesis
      by (simp add: pg_transaction_def Let_def pg_query_def mock_transaction_all)
  next
    case b: False
    let ?c1 = "\<lparr>committed = pg_committed db, working = [], sent_count = 1\<rparr>"
    have q0: "pg_query f Begin ?c0 = (None, ?c1)"
      using b by (simp add: pg_query_def Let_def)
    from insert_events_pg [of f userId es 0 ?c1]
    show ?thesis
    proof (elim disjE exE conjE)
      fix c2
      assume i: "insert_events (pg_query f) userId es 0 ?c1 = (Inr (0 + length es), c2)"
        and cm: "committed c2 = committed ?c1"
        and wk: "working c2 = working ?c1 @ map (event_params userId) es"
      show ?thesis
      proof (cases "statement_fails f (sent_count c2)")
        case True
        then have "pg_query f Commit c2 = (Some DbError, c2\<lparr>sent_count := sent_count c2 + 1\<rparr>)"
          by (simp add: pg_query_def Let_def)
        with False q0 i cm show ?thesis
          by (simp add: pg_transaction_def Let_def mock_transaction_all rb)
      next
        case c: False
        then have "pg_query f Commit c2 =
            (None, c2\<lparr>sent_count := sent_count c2 + 1,
                        committed := committed c2 @ working c2, working := []\<rparr>)"
          by (simp add: pg_query_def Let_def)
        with False q0 i cm wk show ?thesis
          by (simp add: pg_transaction_def Let_def)
      qed
    next
      fix c2
      assume i: "insert_events (pg_query f) userId es 0 ?c1 = (Inl DbError, c2)"
        and cm: "committed c2 = committed ?c1"
      with False q0 show ?thesis
        by (simp add: pg_transaction_def Let_def mock_transaction_all rb)
    qed
  qed
qed

lemma supabase_transaction_nothing:
  "supabase_transaction userId es rows = (if es = [] then (Inr 0, rows) else (Inl TypeError, rows))"
  by (cases es) (simp_all add: supabase_transaction_def supabase_client_query_def)

text \<open>
  C2. A batch posted to \<^verbatim>\<open>/events/batch\<close> is persisted whole or not at all, whatever fails on
  the PostgreSQL side. With the route's database object (PostgreSQL with the mock fallback)
  the request ends in one of three ways: the whole batch is committed in PostgreSQL; or
  PostgreSQL failed somewhere, its transaction is rolled back and the whole batch is in the
  mock database; or the request is rejected with status 400 and nothing is written. On the
  mock database alone the callback cannot fail and the whole batch is written; through the
  Supabase connection the callback fails on its first statement and nothing is written.
\<close>

theorem batch_is_all_or_nothing:
  "(post_batch (pg_transaction f) userId es db =
      (Inr (length es), db\<lparr>pg_committed := pg_committed db @ map (event_params userId) es\<rparr>) \<or>
    post_batch (pg_transaction f) userId es db =
      (Inr (length es), db\<lparr>mock_events := mock_events db @ map (event_params userId) es\<rparr>) \<or>
    (\<exists>msg. post_batch (pg_transaction f) userId es db = (Inl (AppError msg 400), db))) \<and>
   (post_batch mock_transaction userId es db =
      (Inr (length es), db\<lparr>mock_events := mock_events db @ map (event_params userId) es\<rparr>) \<or>
    (\<exists>msg. post_batch mock_transaction userId es db = (Inl (AppError msg 400), db))) \<and>
   (\<exists>err. post_batch supabase_transaction userId es rows = (Inl err, rows))"
proof (intro conjI)
  show "post_batch (pg_transaction f) userId es db =
      (Inr (length es), db\<lparr>pg_committed := pg_committed db @ map (event_params userId) es\<rparr>) \<or>
    post_batch (pg_transaction f) userId es db =
      (Inr (length es), db\<lparr>mock_events := mock_events db @ map (event_params userId) es\<rparr>) \<or>
    (\<exists>msg. post_batch (pg_transaction f) userId es db = (Inl (AppError msg 400), db))"
    using pg_transaction_outcomes [of f userId es db] by (auto simp: post_batch_def)
  show "post_batch mock_transaction userId es db =
      (Inr (length es), db\<lparr>mock_events := mock_events db @ map (event_params userId) es\<rparr>) \<or>
    (\<exists>msg. post_batch mock_transaction userId es db = (Inl (AppError msg 400), db))"
    by (simp add: post_batch_def mock_transaction_all)
  show "\<exists>err. post_batch supabase_transaction userId es rows = (Inl err, rows)"
    by (simp add: post_batch_def supabase_transaction_nothing)
qed

section \<open>Configuration errors\<close>

text \<open>
  What the sources themselves do about a missing secret: the auth middleware and the token
  helpers look for it on every request, and the error handler answers with status 500,
  naming the missing secret in development and with \<^verbatim>\<open>Internal server error\<close> otherwise.
  The Supabase connection object cannot be constructed without its two credentials.
\<close>

lemma missing_jwt_secret_per_request:
  "\<not> truthy_str (env ''JWT_SECRET'') \<Longrightarrow> prefix ''Bearer '' h \<Longrightarrow>
   authMiddleware env verify (Some h) = Inl (AppError_nonoperational ''JWT secret not configured'' 500)"
  by (auto simp: authMiddleware_def truthy_str_def Let_def split: option.splits)

lemma missing_jwt_secret_response:
  "errorHandler env (AppError_nonoperational ''JWT secret not configured'' 500) =
     (500, if env ''NODE_ENV'' = Some ''development'' then ''JWT secret not configured''
           else ''Internal server error'')"
  by (simp add: errorHandler_def)

lemma startup_iff:
  "startup env = Inr () \<longleftrightarrow>
     truthy_str (env ''JWT_SECRET'') \<and> truthy_str (env ''REFRESH_TOKEN_SECRET'')"
  by (simp add: startup_def required_auth_secrets_def)

text \<open>
  C7. With the startup of the specification (a missing required auth secret makes the
  process fail before it serves), a missing JWT or refresh-token secret is a failure at
  startup, and a server that has started never meets the missing secret while it handles
  a request: the auth middleware does not end in a non-operational error and both token
  helpers return a token. A Supabase connection without its credentials does not come
  into being: its constructor throws.
\<close>

theorem missing_auth_secret_fails_at_startup:
  "(\<not> truthy_str (env ''JWT_SECRET'') \<or> \<not> truthy_str (env ''REFRESH_TOKEN_SECRET'')
      \<longrightarrow> (\<exists>err. startup env = Inl err)) \<and>
   (startup env = Inr ()
      \<longrightarrow> (\<forall>msg code. authMiddleware env verify h \<noteq> Inl (AppError_nonoperational msg code)) \<and>
          (\<exists>token. generateAccessToken env sign userId = Inr token) \<and>
          (\<exists>token. generateRefreshToken env sign userId = Inr token)) \<and>
   (\<not> truthy_str (env ''SUPABASE_URL'') \<or> \<not> truthy_str (env ''SUPABASE_SERVICE_ROLE_KEY'')
      \<longrightarrow> (\<exists>msg. new_SupabaseConnection env = Inl (ConfigError msg)))"
proof (intro conjI impI)
  assume "\<not> truthy_str (env ''JWT_SECRET'') \<or> \<not> truthy_str (env ''REFRESH_TOKEN_SECRET'')"
  then have "startup env \<noteq> Inr ()" by (simp add: startup_iff)
  then show "\<exists>err. startup env = Inl err" by (cases "startup env") auto
next
  assume "startup env = Inr ()"
  then have j: "truthy_str (env ''JWT_SECRET'')" and r: "truthy_str (env ''REFRESH_TOKEN_SECRET'')"
    by (simp_all add: startup_iff)
  from j show "\<forall>msg code. authMiddleware env verify h \<noteq> Inl (AppError_nonoperational msg code)"
    by (auto simp: authMiddleware_def truthy_str_def Let_def
        split: option.splits jwt_result.splits if_splits)
  from j show "\<exists>token. generateAccessToken env sign userId = Inr token"
    by (auto simp: generateAccessToken_def truthy_str_def split: option.splits)
  from r show "\<exists>token. generateRefreshToken env sign userId = Inr token"
    by (auto simp: generateRefreshToken_def truthy_str_def split: option.splits)
next
  assume "\<not> truthy_str (env ''SUPABASE_URL'') \<or> \<not> truthy_str (env ''SUPABASE_SERVICE_ROLE_KEY'')"
  then show "\<exists>msg. new_SupabaseConnection env = Inl (ConfigError msg)"
    by (auto simp: new_SupabaseConnection_def)
qed

theorem missing_auth_secret_fails_at_startup_witness:
  "\<not> truthy_str (env_without_jwt_secret ''JWT_SECRET'') \<and>
   \<not> truthy_str (env_without_jwt_secret ''SUPABASE_URL'') \<and>
   (\<exists>err. startup env_without_jwt_secret = Inl err) \<and>
   (\<exists>msg. new_SupabaseConnection env_without_jwt_secret = Inl (ConfigError msg)) \<and>
   startup env_with_secrets = Inr () \<and>
   authMiddleware env_with_secrets accepting_verify (Some ''Bearer abc'') = Inr ''user-1'' \<and>
   generateAccessToken env_with_secrets test_sign ''user-1'' = Inr ''user-1.jwt-secret'' \<and>
   generateRefreshToken env_with_secrets test_sign ''user-1'' = Inr ''user-1.refresh-secret''"
proof -
  have a: "\<not> truthy_str (env_without_jwt_secret ''JWT_SECRET'')"
      "\<not> truthy_str (env_without_jwt_secret ''SUPABASE_URL'')"
    by (simp_all add: env_without_jwt_secret_def truthy_str_def)
  have b: "startup env_with_secrets = Inr ()"
    by (simp add: startup_iff env_with_secrets_def truthy_str_def)
  have c: "authMiddleware env_with_secrets accepting_verify (Some ''Bearer abc'') = Inr ''user-1''"
      "generateAccessToken env_with_secrets test_sign ''user-1'' = Inr ''user-1.jwt-secret''"
      "generateRefreshToken env_with_secrets test_sign ''user-1'' = Inr ''user-1.refresh-secret''"
    by (simp_all add: authMiddleware_def generateAccessToken_def generateRefreshToken_def
        env_with_secrets_def accepting_verify_def test_sign_def)
  from missing_auth_secret_fails_at_startup
         [of env_without_jwt_secret accepting_verify "Some ''Bearer abc''" test_sign "''user-1''"]
       missing_auth_secret_fails_at_startup
         [of env_with_secrets accepting_verify "Some ''Bearer abc''" test_sign "''user-1''"]
  show ?thesis using a b c by simp
qed

section \<open>Clustering configuration\<close>

text \<open>
  C9. The weight table gives 3, 2, 1, 3 and 2 to the five signals, in the documented order,
  and the promotion threshold is 5; the total of a snapshot comparison is the sum of the
  weights of its true signals, and a new session starts when that total reaches 5.
\<close>

theorem clustering_weights_and_threshold:
  "semantic_shift_below_0_6 DEFAULT_CLUSTERING_WEIGHTS = 3 \<and>
   majority_shift_over_50pct DEFAULT_CLUSTERING_WEIGHTS = 2 \<and>
   idle_gap_over_20m DEFAULT_CLUSTERING_WEIGHTS = 1 \<and>
   new_window_boundary DEFAULT_CLUSTERING_WEIGHTS = 3 \<and>
   persistence_over_2_snapshots_or_3_tabs DEFAULT_CLUSTERING_WEIGHTS = 2 \<and>
   PROMOTION_THRESHOLD = 5 \<and>
   total_score DEFAULT_CLUSTERING_WEIGHTS s =
     (if semantic_shift s then 3 else 0) + (if majority_shift s then 2 else 0) +
     (if idle_gap s then 1 else 0) + (if new_window s then 3 else 0) +
     (if persistence s then 2 else 0) \<and>
   starts_new_session s = (total_score DEFAULT_CLUSTERING_WEIGHTS s \<ge> 5)"
  by (simp add: DEFAULT_CLUSTERING_WEIGHTS_def PROMOTION_THRESHOLD_def total_score_def
      starts_new_session_def)

section \<open>URL redaction\<close>

lemma byte_less: "byte c < 256"
  by (simp add: byte_def)

lemma char_of_byte: "char_of (byte c) = c"
  by (simp add: byte_def)

lemma byte_char_of: "n < 256 \<Longrightarrow> byte (char_of n) = n"
  by (simp add: byte_def)

lemma hex_digit_props:
  assumes "n < 16"
  shows "is_hex (hex_digit n)" and "hex_val (hex_digit n) = n"
    and "hex_digit n \<noteq> CHR ''+''" and "hex_digit n \<noteq> CHR ''%''"
    and "hex_digit n \<noteq> CHR ''&''" and "hex_digit n \<noteq> CHR ''=''" and "hex_digit n \<noteq> CHR ''#''"
proof -
  have b: "byte (hex_digit n) = (if n < 10 then 48 + n else 55 + n)"
    using assms by (simp add: hex_digit_def byte_char_of)
  show "is_hex (hex_digit n)" using assms by (auto simp: is_hex_def b)
  show "hex_val (hex_digit n) = n" using assms by (auto simp: hex_val_def b)
  have v: "byte CHR ''+'' = 43" "byte CHR ''%'' = 37" "byte CHR ''&'' = 38" "byte CHR ''='' = 61"
      "byte CHR ''#'' = 35"
    by (simp_all add: byte_def)
  have ne: "\<And>c. byte (hex_digit n) \<noteq> byte c \<Longrightarrow> hex_digit n \<noteq> c" by auto
  show "hex_digit n \<noteq> CHR ''+''" using assms by (intro ne) (auto simp: b v)
  show "hex_digit n \<noteq> CHR ''%''" using assms by (intro ne) (auto simp: b v)
  show "hex_digit n \<noteq> CHR ''&''" using assms by (intro ne) (auto simp: b v)
  show "hex_digit n \<noteq> CHR ''=''" using assms by (intro ne) (auto simp: b v)
  show "hex_digit n \<noteq> CHR ''#''" using assms by (intro ne) (auto simp: b v)
qed

lemma safe_not_special:
  assumes "urlencoded_safe c"
  shows "c \<noteq> CHR ''+''" "c \<noteq> CHR ''%''" "c \<noteq> CHR ''&''" "c \<noteq> CHR ''=''" "c \<noteq> CHR ''#''"
  using assms by (auto simp: urlencoded_safe_def byte_def)

lemma percent_decode_byte:
  "percent_decode (map (\<lambda>c. if c = CHR ''+'' then CHR '' '' else c) (urlencode_byte c @ rest))
     = c # percent_decode (map (\<lambda>c. if c = CHR ''+'' then CHR '' '' else c) rest)"
proof -
  have d: "byte c div 16 < 16" "byte c mod 16 < 16"
    using byte_less [of c] by simp_all
  have e: "16 * (byte c div 16) + byte c mod 16 = byte c" by simp
  show ?thesis
  proof (cases "c = CHR '' ''")
    case True
    then show ?thesis by (simp add: urlencode_byte_def)
  next
    case False
    show ?thesis
    proof (cases "urlencoded_safe c")
      case True
      with False safe_not_special [OF True] show ?thesis
        by (simp add: urlencode_byte_def)
    next
      case f: False
      with False show ?thesis
        by (simp add: urlencode_byte_def hex_digit_props [OF d(1)] hex_digit_props [OF d(2)]
            e char_of_byte)
    qed
  qed
qed

lemma percent_decode_urlencode:
  "percent_decode (map (\<lambda>c. if c = CHR ''+'' then CHR '' '' else c) (urlencode s)) = s"
proof (induction s)
  case Nil
  then show ?case by (simp add: urlencode_def)
next
  case (Cons c s)
  have "urlencode (c # s) = urlencode_byte c @ urlencode s" by (simp add: urlencode_def)
  with Cons percent_decode_byte [of c "urlencode s"] show ?case by simp
qed

lemma urldecode_urlencode: "urldecode (urlencode s) = utf8_decode s"
  by (simp add: urldecode_def percent_decode_urlencode)

lemma urlencode_byte_chars:
  "x \<in> set (urlencode_byte c) \<Longrightarrow> x \<noteq> CHR ''&'' \<and> x \<noteq> CHR ''='' \<and> x \<noteq> CHR ''#''"
proof -
  assume x: "x \<in> set (urlencode_byte c)"
  have d: "byte c div 16 < 16" "byte c mod 16 < 16"
    using byte_less [of c] by simp_all
  from x show ?thesis
    using hex_digit_props [OF d(1)] hex_digit_props [OF d(2)] safe_not_special [of c]
    by (auto simp: urlencode_byte_def split: if_splits)
qed

lemma urlencode_chars:
  "x \<in> set (urlencode s) \<Longrightarrow> x \<noteq> CHR ''&'' \<and> x \<noteq> CHR ''='' \<and> x \<noteq> CHR ''#''"
  using urlencode_byte_chars by (fastforce simp: urlencode_def)

lemma match_conts_complete:
  "match_conts rs bs = (m, rest, True) \<Longrightarrow> match_conts rs (m @ X) = (m, X, True)"
  by (induction rs bs arbitrary: m rest rule: match_conts.induct)
     (auto split: if_splits prod.splits)

lemma utf8_decode_replacement:
  "utf8_decode (replacement @ X) = replacement @ utf8_decode X"
  by (simp add: utf8_decode.simps replacement_def byte_def utf8_ranges_def)

lemma utf8_decode_idem: "utf8_decode (utf8_decode bs) = utf8_decode bs"
proof (induction bs rule: utf8_decode.induct)
  case 1
  then show ?case by (simp add: utf8_decode.simps)
next
  case (2 b bs)
  show ?case
  proof (cases "byte b < 128")
    case True
    with 2 show ?thesis by (simp add: utf8_decode.simps)
  next
    case False
    show ?thesis
    proof (cases "utf8_ranges (byte b)")
      case None
      with False 2 show ?thesis by (simp add: utf8_decode.simps utf8_decode_replacement)
    next
      case (Some rs)
      obtain m rest ok where mc: "match_conts rs bs = (m, rest, ok)"
        by (cases "match_conts rs bs") auto
      show ?thesis
      proof (cases ok)
        case True
        from "2.IH"(3) [OF False Some mc [symmetric] refl True]
        have ih: "utf8_decode (utf8_decode rest) = utf8_decode rest" .
        from mc True have "match_conts rs (m @ utf8_decode rest) = (m, utf8_decode rest, True)"
          by (simp add: match_conts_complete)
        with False Some mc True ih show ?thesis by (simp add: utf8_decode.simps)
      next
        case f: False
        from "2.IH"(4) [OF False Some mc [symmetric] refl f]
        have ih: "utf8_decode (utf8_decode rest) = utf8_decode rest" .
        with False Some mc f show ?thesis by (simp add: utf8_decode.simps utf8_decode_replacement)
      qed
    qed
  qed
qed

lemma utf8_decode_redacted: "utf8_decode ''[REDACTED]'' = ''[REDACTED]''"
  by (simp add: utf8_decode.simps byte_def)

lemma split_on_no_delim: "d \<notin> set s \<Longrightarrow> split_on d s = [s]"
  by (induction s) auto

lemma split_on_append: "d \<notin> set a \<Longrightarrow> split_on d (a @ d # b) = a # split_on d b"
  by (induction a) auto

lemma serialize_Cons:
  "urlencoded_serialize (nv # rest) =
     pair_string nv @ (if rest = [] then [] else CHR ''&'' # urlencoded_serialize rest)"
  by (cases nv; cases rest) (simp_all add: pair_string_def)

lemma pair_string_no_amp: "CHR ''&'' \<notin> set (pair_string nv)"
  using urlencode_chars by (auto simp: pair_string_def)

lemma pair_string_nonempty: "pair_string nv \<noteq> []"
  by (simp add: pair_string_def)

lemma serialize_empty_iff: "urlencoded_serialize l = [] \<longleftrightarrow> l = []"
  by (cases l) (simp_all add: serialize_Cons pair_string_nonempty)

lemma serialize_no_hash: "CHR ''#'' \<notin> set (urlencoded_serialize l)"
proof (induction l)
  case Nil
  then show ?case by simp
next
  case (Cons nv l)
  have "CHR ''#'' \<notin> set (pair_string nv)"
    using urlencode_chars by (auto simp: pair_string_def)
  with Cons show ?case by (simp add: serialize_Cons)
qed

lemma split_serialize:
  "l \<noteq> [] \<Longrightarrow> split_on CHR ''&'' (urlencoded_serialize l) = map pair_string l"
proof (induction l)
  case Nil
  then show ?case by simp
next
  case (Cons nv l)
  show ?case
  proof (cases "l = []")
    case True
    then show ?thesis
      by (simp add: serialize_Cons split_on_no_delim pair_string_no_amp)
  next
    case False
    with Cons show ?thesis
      by (simp add: serialize_Cons split_on_append pair_string_no_amp)
  qed
qed

lemma parse_pair_string:
  "parse_pair (pair_string nv) = (utf8_decode (fst nv), utf8_decode (snd nv))"
proof -
  have a: "\<forall>x\<in>set (urlencode (fst nv)). x \<noteq> CHR ''=''"
    using urlencode_chars by blast
  then have "takeWhile (\<lambda>c. c \<noteq> CHR ''='') (pair_string nv) = urlencode (fst nv)"
    by (simp add: pair_string_def)
  moreover from a have "dropWhile (\<lambda>c. c \<noteq> CHR ''='') (pair_string nv) = CHR ''='' # urlencode (snd nv)"
    by (simp add: pair_string_def)
  ultimately show ?thesis
    by (simp add: parse_pair_def urldecode_urlencode)
qed

lemma parse_serialize:
  "urlencoded_parse (urlencoded_serialize l) = map (\<lambda>nv. (utf8_decode (fst nv), utf8_decode (snd nv))) l"
proof (cases "l = []")
  case True
  then show ?thesis by (simp add: urlencoded_parse_def)
next
  case False
  have "filter (\<lambda>bytes. bytes \<noteq> []) (map pair_string l) = map pair_string l"
    by (induction l) (simp_all add: pair_string_nonempty)
  with False show ?thesis
    by (simp add: urlencoded_parse_def split_serialize parse_pair_string)
qed

lemma clean_string_decode: "clean_string (utf8_decode s)"
  by (simp add: clean_string_def utf8_decode_idem)

lemma clean_string_redacted: "clean_string ''[REDACTED]''"
  unfolding clean_string_def by (rule utf8_decode_redacted)

lemma parse_serialize_clean: "clean l \<Longrightarrow> urlencoded_parse (urlencoded_serialize l) = l"
  by (simp add: parse_serialize clean_def clean_string_def list_all_iff map_idI)

lemma clean_parse: "clean (urlencoded_parse q)"
  by (simp add: clean_def urlencoded_parse_def list_all_iff parse_pair_def urldecode_def
      clean_string_decode)

lemma set_first_absent: "\<not> sp_has l p \<Longrightarrow> set_first p v l = l"
  by (induction l) (auto simp: sp_has_def)

lemma sp_has_filter: "sp_has (filter (\<lambda>(n', v'). n' \<noteq> p) l) q \<longleftrightarrow> sp_has l q \<and> q \<noteq> p"
  by (induction l) (auto simp: sp_has_def)

lemma sp_has_iff: "sp_has l q \<longleftrightarrow> q \<in> fst ` set l"
  by (force simp: sp_has_def list_ex_iff)

lemma names_filter: "fst ` {x \<in> set l. case x of (n', v') \<Rightarrow> n' \<noteq> p} = fst ` set l - {p}"
  by force

lemma names_set_first: "fst ` set (set_first p v l) = fst ` set l"
proof (induction l)
  case Nil
  then show ?case by simp
next
  case (Cons a l)
  then show ?case by (cases a) (simp add: names_filter)
qed

lemma sp_has_set_first: "sp_has (set_first p v l) q \<longleftrightarrow> sp_has l q"
  by (simp add: sp_has_iff names_set_first)

lemma sp_has_set_first_fun: "sp_has (set_first p v l) = sp_has l"
  by (rule ext) (simp add: sp_has_set_first)

lemma filter_set_first:
  "p \<noteq> q \<Longrightarrow> filter (\<lambda>(n', v'). n' \<noteq> p) (set_first q w l) = set_first q w (filter (\<lambda>(n', v'). n' \<noteq> p) l)"
proof (induction l)
  case Nil
  then show ?case by simp
next
  case (Cons a l)
  obtain n v where a: "a = (n, v)" by (cases a)
  have comm: "filter (\<lambda>(n', v'). n' \<noteq> p) (filter (\<lambda>(n', v'). n' \<noteq> q) l)
            = filter (\<lambda>(n', v'). n' \<noteq> q) (filter (\<lambda>(n', v'). n' \<noteq> p) l)"
    by (auto intro: filter_cong)
  from Cons comm show ?case by (auto simp: a)
qed

lemma set_first_idem: "set_first p v (set_first p v l) = set_first p v l"
  by (induction l) auto

lemma set_first_commute:
  "set_first p v (set_first q w l) = set_first q w (set_first p v l)" if "p \<noteq> q"
  using that
proof (induction l)
  case Nil
  then show ?case by simp
next
  case (Cons a l)
  obtain n x where a: "a = (n, x)" by (cases a)
  from Cons filter_set_first [of p q w l] filter_set_first [of q p v l]
  show ?case by (auto simp: a)
qed

lemma redact_params_Cons: "redact_params (p # ps) l = redact_params ps (set_first p ''[REDACTED]'' l)"
  by (simp add: redact_params_def)

lemma set_first_redact_params:
  "set_first p ''[REDACTED]'' (redact_params ps l) = redact_params ps (set_first p ''[REDACTED]'' l)"
proof (induction ps arbitrary: l)
  case Nil
  then show ?case by (simp add: redact_params_def)
next
  case (Cons q ps)
  have "set_first q ''[REDACTED]'' (set_first p ''[REDACTED]'' l)
      = set_first p ''[REDACTED]'' (set_first q ''[REDACTED]'' l)"
    by (cases "p = q") (simp_all add: set_first_commute)
  with Cons show ?case by (simp add: redact_params_Cons)
qed

lemma redact_params_idem: "redact_params ps (redact_params ps l) = redact_params ps l"
proof (induction ps arbitrary: l)
  case Nil
  then show ?case by (simp add: redact_params_def)
next
  case (Cons p ps)
  then show ?case
    by (simp add: redact_params_Cons set_first_redact_params set_first_idem)
qed

lemma sp_has_redact_params: "sp_has (redact_params ps l) = sp_has l"
  by (induction ps arbitrary: l) (simp_all add: redact_params_def sp_has_set_first_fun)

lemma clean_Cons:
  "clean (a # l) \<longleftrightarrow> clean_string (fst a) \<and> clean_string (snd a) \<and> clean l"
  by (simp add: clean_def)

lemma clean_filter: "clean l \<Longrightarrow> clean (filter Q l)"
  by (induction l) (simp_all add: clean_Cons)

lemma clean_set_first: "clean l \<Longrightarrow> clean (set_first p ''[REDACTED]'' l)"
proof (induction l)
  case Nil
  then show ?case by simp
next
  case (Cons a l)
  obtain n x where a: "a = (n, x)" by (cases a)
  show ?case
  proof (cases "n = p")
    case True
    with Cons.prems have "clean ((n, ''[REDACTED]'') # filter (\<lambda>(n', v'). n' \<noteq> p) l)"
      unfolding a clean_Cons by (simp add: clean_string_redacted clean_filter)
    with True show ?thesis unfolding a by simp
  next
    case False
    with Cons have "clean ((n, x) # set_first p ''[REDACTED]'' l)"
      unfolding a clean_Cons by simp
    with False show ?thesis unfolding a by simp
  qed
qed

lemma clean_redact_params: "clean l \<Longrightarrow> clean (redact_params ps l)"
  by (induction ps arbitrary: l) (simp_all add: redact_params_def clean_set_first)

lemma redact_params_absent: "\<not> list_ex (sp_has l) ps \<Longrightarrow> redact_params ps l = l"
  by (induction ps arbitrary: l) (simp_all add: redact_params_def set_first_absent)

lemma redact_step_eq:
  "redact_step (u, l) p =
     (if sp_has l p then u\<lparr>u_query := query_of (set_first p ''[REDACTED]'' l)\<rparr> else u,
      set_first p ''[REDACTED]'' l)"
  by (simp add: redact_step_def searchParams_set_def sp_set_def Let_def query_of_def set_first_absent)

lemma foldl_redact_step:
  "foldl redact_step (u, l) ps =
     (if list_ex (sp_has l) ps then u\<lparr>u_query := query_of (redact_params ps l)\<rparr> else u,
      redact_params ps l)"
proof (induction ps arbitrary: u l)
  case Nil
  then show ?case by (simp add: redact_params_def)
next
  case (Cons p ps)
  show ?case
    by (simp add: redact_step_eq Cons redact_params_Cons sp_has_set_first_fun redact_params_absent)
qed

lemma redact_parsed:
  "P s = Some u \<Longrightarrow>
   redactSensitiveUrl P s =
     href (let l = urlencoded_parse (case u_query u of None \<Rightarrow> [] | Some q \<Rightarrow> q)
           in if list_ex (sp_has l) sensitiveParams
              then u\<lparr>u_query := query_of (redact_params sensitiveParams l)\<rparr> else u)"
  by (simp add: redactSensitiveUrl_def new_URL_def foldl_redact_step Let_def)

lemma sp_has_nonempty: "list_ex (sp_has l) ps \<Longrightarrow> l \<noteq> []"
  by (auto simp: sp_has_def list_ex_iff)

lemma split_url_the_split:
  "split_url s =
     (if CHR '':'' \<notin> set (takeWhile (\<lambda>c. c \<noteq> CHR ''?'' \<and> c \<noteq> CHR ''#'') s) then None
      else Some (the_split s))"
  unfolding split_url_def Let_def the_split_def ..

lemma splits_back_the_split:
  "splits_back (the_split s) \<longleftrightarrow>
     CHR '':'' \<in> set (takeWhile (\<lambda>c. c \<noteq> CHR ''?'' \<and> c \<noteq> CHR ''#'') s)"
proof -
  have b: "\<forall>c\<in>set (takeWhile (\<lambda>c. c \<noteq> CHR ''?'' \<and> c \<noteq> CHR ''#'') s).
             c \<noteq> CHR ''?'' \<and> c \<noteq> CHR ''#''"
    using set_takeWhileD by fastforce
  have q: "\<And>q. CHR ''#'' \<notin> set (takeWhile (\<lambda>c. c \<noteq> CHR ''#'') q)"
    using set_takeWhileD by fastforce
  have uq: "case u_query (the_split s) of None \<Rightarrow> True | Some q \<Rightarrow> CHR ''#'' \<notin> set q"
    by (cases "dropWhile (\<lambda>c. c \<noteq> CHR ''?'' \<and> c \<noteq> CHR ''#'') s")
       (simp_all add: the_split_def q del: dropWhile_eq_Nil_conv)
  have ub: "u_base (the_split s) = takeWhile (\<lambda>c. c \<noteq> CHR ''?'' \<and> c \<noteq> CHR ''#'') s"
    by (simp add: the_split_def)
  show ?thesis
    unfolding splits_back_def ub using b uq by blast
qed

lemma split_url_splits_back: "split_url s = Some u \<Longrightarrow> splits_back u"
proof (cases "CHR '':'' \<in> set (takeWhile (\<lambda>c. c \<noteq> CHR ''?'' \<and> c \<noteq> CHR ''#'') s)")
  case True
  assume "split_url s = Some u"
  with True have "u = the_split s"
    unfolding split_url_the_split by simp
  with True show ?thesis
    by (simp only: splits_back_the_split)
next
  case False
  assume "split_url s = Some u"
  with False show ?thesis
    unfolding split_url_the_split by simp
qed

lemma split_url_href: "splits_back u \<Longrightarrow> split_url (href u) = Some u"
proof -
  assume w: "splits_back u"
  let ?p = "\<lambda>c. c \<noteq> CHR ''?'' \<and> c \<noteq> CHR ''#''"
  let ?tail = "(case u_query u of None \<Rightarrow> [] | Some q \<Rightarrow> CHR ''?'' # q)
              @ (case u_fragment u of None \<Rightarrow> [] | Some f \<Rightarrow> CHR ''#'' # f)"
  from w have b: "\<forall>c\<in>set (u_base u). ?p c" and c: "CHR '':'' \<in> set (u_base u)"
    by (simp_all add: splits_back_def)
  have t: "takeWhile ?p ?tail = []"
    by (cases "u_query u"; cases "u_fragment u") simp_all
  have d: "dropWhile ?p ?tail = ?tail"
    by (cases "u_query u"; cases "u_fragment u") simp_all
  from b t have tw: "takeWhile ?p (href u) = u_base u"
    by (simp add: href_def)
  from b d have dw: "dropWhile ?p (href u) = ?tail"
    by (simp add: href_def)
  have q: "(case ?tail of [] \<Rightarrow> None
            | c # q \<Rightarrow> if c = CHR ''?'' then Some (takeWhile (\<lambda>c. c \<noteq> CHR ''#'') q) else None)
           = u_query u"
  proof (cases "u_query u")
    case None
    then show ?thesis by (cases "u_fragment u") simp_all
  next
    case (Some q)
    with w have "\<forall>c\<in>set q. c \<noteq> CHR ''#''" by (auto simp: splits_back_def)
    with Some show ?thesis
      by (cases "u_fragment u") simp_all
  qed
  have f: "(case dropWhile (\<lambda>c. c \<noteq> CHR ''#'') ?tail of [] \<Rightarrow> None | c # f \<Rightarrow> Some f) = u_fragment u"
  proof (cases "u_query u")
    case None
    then show ?thesis by (cases "u_fragment u") simp_all
  next
    case (Some q)
    with w have n: "\<forall>c\<in>set q. c \<noteq> CHR ''#''" by (auto simp: splits_back_def)
    then have "dropWhile (\<lambda>c. c \<noteq> CHR ''#'') q = []" by simp
    with Some n show ?thesis
      by (cases "u_fragment u") (simp_all del: dropWhile_eq_Nil_conv)
  qed
  have "split_url (href u) =
      Some \<lparr>u_base = u_base u,
            u_query = (case ?tail of [] \<Rightarrow> None
              | c # q \<Rightarrow> if c = CHR ''?'' then Some (takeWhile (\<lambda>c. c \<noteq> CHR ''#'') q) else None),
            u_fragment = (case dropWhile (\<lambda>c. c \<noteq> CHR ''#'') ?tail of [] \<Rightarrow> None
              | c # f \<Rightarrow> Some f)\<rparr>"
    using c unfolding split_url_def Let_def tw dw by simp
  then show ?thesis
    unfolding q f by simp
qed

lemma split_url_reparses: "reparses split_url"
  unfolding reparses_def
proof (intro conjI allI impI)
  fix s u
  assume "split_url s = Some u"
  then show "split_url (href u) = Some u"
    by (intro split_url_href split_url_splits_back)
next
  fix s u and l :: params
  assume "split_url s = Some u"
  then have "splits_back u" by (rule split_url_splits_back)
  then have "splits_back (u\<lparr>u_query := Some (urlencoded_serialize l)\<rparr>)"
    by (simp add: splits_back_def serialize_no_hash)
  then show "split_url (href (u\<lparr>u_query := Some (urlencoded_serialize l)\<rparr>))
      = Some (u\<lparr>u_query := Some (urlencoded_serialize l)\<rparr>)"
    by (rule split_url_href)
qed

lemma redact_example:
  "redactSensitiveUrl split_url ''https://example.org/cb?code=4f2a&state=x y&token=%ff#top''
     = ''https://example.org/cb?code=%5BREDACTED%5D&state=x+y&token=%5BREDACTED%5D#top''"
  by code_simp

text \<open>
  C5. Redacting a redacted URL changes nothing: for every input string,
  \<open>redactSensitiveUrl\<close> applied twice gives what it gives applied once, with any URL parser
  of the platform whose serialised URLs parse back to themselves. (A string the parser
  refuses is returned as it is, both times.)
\<close>

theorem redaction_is_idempotent:
  assumes "reparses P"
  shows "redactSensitiveUrl P (redactSensitiveUrl P u) = redactSensitiveUrl P u"
proof (cases "P u")
  case None
  then show ?thesis by (simp add: redactSensitiveUrl_def new_URL_def)
next
  case (Some u0)
  define l0 where "l0 = urlencoded_parse (case u_query u0 of None \<Rightarrow> [] | Some q \<Rightarrow> q)"
  show ?thesis
  proof (cases "list_ex (sp_has l0) sensitiveParams")
    case False
    with Some have r: "redactSensitiveUrl P u = href u0"
      by (simp add: redact_parsed l0_def)
    from assms Some have "P (href u0) = Some u0"
      by (auto simp: reparses_def)
    with False have "redactSensitiveUrl P (href u0) = href u0"
      by (simp add: redact_parsed l0_def)
    with r show ?thesis by simp
  next
    case True
    define l1 where "l1 = redact_params sensitiveParams l0"
    define u1 where "u1 = u0\<lparr>u_query := Some (urlencoded_serialize l1)\<rparr>"
    from True have ex1: "list_ex (sp_has l1) sensitiveParams"
      by (simp add: l1_def sp_has_redact_params)
    then have ne: "l1 \<noteq> []" by (rule sp_has_nonempty)
    then have q1: "query_of l1 = Some (urlencoded_serialize l1)"
      by (simp add: query_of_def serialize_empty_iff)
    from Some True q1 have r: "redactSensitiveUrl P u = href u1"
      by (simp add: redact_parsed l0_def [symmetric] l1_def [symmetric] u1_def)
    from assms Some ne have p1: "P (href u1) = Some u1"
      unfolding reparses_def u1_def by blast
    have "clean l1"
      by (simp add: l1_def l0_def clean_redact_params clean_parse)
    then have roundtrip: "urlencoded_parse (urlencoded_serialize l1) = l1"
      by (rule parse_serialize_clean)
    have idem: "redact_params sensitiveParams l1 = l1"
      by (simp add: l1_def redact_params_idem)
    have "u_query u1 = Some (urlencoded_serialize l1)"
      by (simp add: u1_def)
    with roundtrip ex1 idem q1 have "redactSensitiveUrl P (href u1) = href (u1\<lparr>u_query := Some (urlencoded_serialize l1)\<rparr>)"
      by (simp add: redact_parsed [where P = P and s = "href u1" and u = u1, OF p1])
    then have "redactSensitiveUrl P (href u1) = href u1"
      by (simp add: u1_def)
    with r show ?thesis by simp
  qed
qed

theorem redaction_is_idempotent_witness:
  "reparses split_url \<and>
   redactSensitiveUrl split_url ''https://example.org/cb?code=4f2a&state=x y&token=%ff#top''
     = ''https://example.org/cb?code=%5BREDACTED%5D&state=x+y&token=%5BREDACTED%5D#top'' \<and>
   redactSensitiveUrl split_url
       ''https://example.org/cb?code=%5BREDACTED%5D&state=x+y&token=%5BREDACTED%5D#top''
     = ''https://example.org/cb?code=%5BREDACTED%5D&state=x+y&token=%5BREDACTED%5D#top''"
  using redaction_is_idempotent [OF split_url_reparses,
      of "''https://example.org/cb?code=4f2a&state=x y&token=%ff#top''"]
  by (simp only: redact_example split_url_reparses simp_thms)

end
